theory Spec2Isabelle
  imports Complex_Main "HOL-Library.AList"
begin

section \<open>Exceptions as values\<close>

text \<open>
  Every operation of \<^verbatim>\<open>neural_networks/layers.py\<close> that can raise returns
  \<open>error + 'a\<close>, with \<open>Inl\<close> the exception.  The constructors are the Python exception
  classes that the layers or numpy raise.  \<open>Unmodelled\<close> is not an exception: it marks an
  input outside the layer contract (an operand of another rank or extent than the layer
  itself creates, an empty reduction that numpy answers with NaN) on which this model
  says nothing about the program.
\<close>

datatype error =
    ValueError string
  | TypeError string
  | IndexError string
  | KeyError string
  | NameError string
  | AttributeError string
  | UnboundLocalError string
  | ZeroDivisionError
  | Unmodelled string

definition and_then :: "error + 'a \<Rightarrow> ('a \<Rightarrow> error + 'b) \<Rightarrow> error + 'b" where
  "and_then m f = (case m of Inl e \<Rightarrow> Inl e | Inr x \<Rightarrow> f x)"

text \<open>A \<^verbatim>\<open>for\<close> loop whose body may raise: the first exception leaves the loop.\<close>

fun for_each :: "'i list \<Rightarrow> ('i \<Rightarrow> 's \<Rightarrow> error + 's) \<Rightarrow> 's \<Rightarrow> error + 's" where
  "for_each [] body s = Inr s"
| "for_each (i # is) body s = and_then (body i s) (for_each is body)"

section \<open>numpy arrays\<close>

text \<open>
  An \<^verbatim>\<open>ndarray\<close> is its shape and its elements in row-major (C) order, the order
  in which numpy indexes, reshapes and flattens.  Elements of the float arrays are
  modelled as \<open>real\<close>: sums and products are exact, there is no rounding, NaN or
  infinity.
\<close>

record 'a ndarray =
  shape :: "nat list"
  elems :: "'a list"

definition well_shaped :: "'a ndarray \<Rightarrow> bool" where
  "well_shaped A \<longleftrightarrow> length (elems A) = prod_list (shape A)"

text \<open>All index tuples of a shape, in row-major order, and the position of one of them.\<close>

fun indices :: "nat list \<Rightarrow> nat list list" where
  "indices [] = [[]]"
| "indices (d # ds) = concat (map (\<lambda>i. map ((#) i) (indices ds)) [0..<d])"

fun offset :: "nat list \<Rightarrow> nat list \<Rightarrow> nat" where
  "offset (d # ds) (i # is) = i * prod_list ds + offset ds is"
| "offset _ _ = 0"

definition in_bounds :: "nat list \<Rightarrow> nat list \<Rightarrow> bool" where
  "in_bounds sh idx = list_all2 (<) idx sh"

definition item :: "'a ndarray \<Rightarrow> nat list \<Rightarrow> 'a" where
  "item A idx = elems A ! offset (shape A) idx"

definition tabulate :: "nat list \<Rightarrow> (nat list \<Rightarrow> 'a) \<Rightarrow> 'a ndarray" where
  "tabulate sh f = \<lparr>shape = sh, elems = map f (indices sh)\<rparr>"

definition unpack4 :: "nat list \<Rightarrow> error + nat \<times> nat \<times> nat \<times> nat" where
  \<comment> \<open>\<^verbatim>\<open>a, b, c, d = A.shape\<close>\<close>
  "unpack4 sh = (case sh of
       [a, b, c, d] \<Rightarrow> Inr (a, b, c, d)
     | _ \<Rightarrow> Inl (ValueError ''wrong number of values to unpack''))"

definition np_zeros :: "nat list \<Rightarrow> real ndarray" where
  "np_zeros sh = tabulate sh (\<lambda>_. 0)"

definition np_zeros_like :: "real ndarray \<Rightarrow> real ndarray" where
  "np_zeros_like A = np_zeros (shape A)"

definition np_zeros_dims :: "int list \<Rightarrow> error + real ndarray" where
  \<comment> \<open>\<^verbatim>\<open>np.zeros(dims)\<close> with computed, possibly negative, extents\<close>
  "np_zeros_dims dims =
     (if list_ex (\<lambda>d. d < 0) dims then Inl (ValueError ''negative dimensions are not allowed'')
      else Inr (np_zeros (map nat dims)))"

definition np_empty :: "(nat list \<Rightarrow> real) \<Rightarrow> int list \<Rightarrow> error + real ndarray" where
  \<comment> \<open>\<^verbatim>\<open>np.empty(dims)\<close>: \<open>mem\<close> is whatever the fresh memory holds\<close>
  "np_empty mem dims =
     (if list_ex (\<lambda>d. d < 0) dims then Inl (ValueError ''negative dimensions are not allowed'')
      else Inr (tabulate (map nat dims) mem))"

definition zero_pad :: "real ndarray \<Rightarrow> nat \<Rightarrow> nat \<Rightarrow> real ndarray" where
  \<comment> \<open>a rank-4 array with \<open>p\<close> rows of zeros above and below and \<open>q\<close> columns of zeros left
      and right of every example and channel\<close>
  "zero_pad X p q =
     (let B = shape X ! 0; H = shape X ! 1; W = shape X ! 2; C = shape X ! 3
      in tabulate [B, H + 2 * p, W + 2 * q, C]
           (\<lambda>idx. if p \<le> idx ! 1 \<and> idx ! 1 < p + H \<and> q \<le> idx ! 2 \<and> idx ! 2 < q + W
                   then item X [idx ! 0, idx ! 1 - p, idx ! 2 - q, idx ! 3] else 0))"

definition np_pad4 :: "real ndarray \<Rightarrow> int \<Rightarrow> int \<Rightarrow> error + real ndarray" where
  \<comment> \<open>\<^verbatim>\<open>np.pad(X, ((0,0),(ph,ph),(pw,pw),(0,0)), mode='constant')\<close> on a rank-4 array\<close>
  "np_pad4 X ph pw =
     (if ph < 0 \<or> pw < 0 then Inl (ValueError ''index cannot contain negative values'')
      else Inr (zero_pad X (nat ph) (nat pw)))"

definition window :: "real ndarray \<Rightarrow> nat \<Rightarrow> nat \<Rightarrow> nat \<Rightarrow> nat \<Rightarrow> real ndarray" where
  \<comment> \<open>\<^verbatim>\<open>A[:, r0:r1, c0:c1, :]\<close> for \<open>0 \<le> r0 \<le> r1\<close>, \<open>0 \<le> c0 \<le> c1\<close>: a slice stops at the
      array's edge\<close>
  "window A r0 r1 c0 c1 =
     (let B = shape A ! 0; H = shape A ! 1; W = shape A ! 2; C = shape A ! 3;
          r = min r0 H; c = min c0 W
      in tabulate [B, min r1 H - r, min c1 W - c, C]
           (\<lambda>idx. item A [idx ! 0, r + idx ! 1, c + idx ! 2, idx ! 3]))"

definition pick_row_col :: "real ndarray \<Rightarrow> nat \<Rightarrow> nat \<Rightarrow> error + real ndarray" where
  \<comment> \<open>\<^verbatim>\<open>G[:, row:row+1, col:col+1, :]\<close> of an array passed in by the caller\<close>
  "pick_row_col G row col =
     (if length (shape G) < 4 then Inl (IndexError ''too many indices for array'')
      else if length (shape G) > 4 then Inl (Unmodelled ''gradient of rank above 4'')
      else Inr (window G row (row + 1) col (col + 1)))"

definition pick_channel :: "real ndarray \<Rightarrow> nat \<Rightarrow> nat \<Rightarrow> nat \<Rightarrow> error + real ndarray" where
  \<comment> \<open>\<^verbatim>\<open>A[:, row:row+1, col:col+1, np.newaxis, channel]\<close>\<close>
  "pick_channel A row col ch =
     (if length (shape A) = 4 \<and> ch < shape A ! 3
      then let H = shape A ! 1; W = shape A ! 2; r = min row H; c = min col W
           in Inr (tabulate [shape A ! 0, min (row + 1) H - r, min (col + 1) W - c, 1]
                (\<lambda>idx. item A [idx ! 0, r + idx ! 1, c + idx ! 2, ch]))
      else Inl (IndexError ''index out of bounds''))"

definition last_axis :: "real ndarray \<Rightarrow> nat \<Rightarrow> error + real ndarray" where
  \<comment> \<open>\<^verbatim>\<open>W[:, :, :, channel]\<close>\<close>
  "last_axis W ch =
     (if length (shape W) = 4 \<and> ch < shape W ! 3
      then Inr (tabulate (butlast (shape W)) (\<lambda>idx. item W (idx @ [ch])))
      else Inl (IndexError ''index out of bounds''))"

definition new_axis_0 :: "'a ndarray \<Rightarrow> 'a ndarray" where
  \<comment> \<open>\<^verbatim>\<open>K[np.newaxis, ...]\<close>\<close>
  "new_axis_0 K = \<lparr>shape = 1 # shape K, elems = elems K\<rparr>"

definition column :: "real ndarray \<Rightarrow> nat \<Rightarrow> error + real ndarray" where
  \<comment> \<open>\<^verbatim>\<open>b[:, channel]\<close>\<close>
  "column b ch =
     (if length (shape b) = 2 \<and> ch < shape b ! 1
      then Inr (tabulate [shape b ! 0] (\<lambda>idx. item b [idx ! 0, ch]))
      else Inl (IndexError ''index out of bounds''))"

definition np_reshape :: "'a ndarray \<Rightarrow> nat list \<Rightarrow> error + 'a ndarray" where
  \<comment> \<open>\<^verbatim>\<open>A.reshape(sh)\<close>: the same elements in the same order\<close>
  "np_reshape A sh =
     (if prod_list sh = length (elems A) then Inr \<lparr>shape = sh, elems = elems A\<rparr>
      else Inl (ValueError ''cannot reshape array''))"

subsection \<open>Broadcasting\<close>

text \<open>
  numpy aligns the shapes of two operands at their last axes, reads a missing leading
  extent as 1, and repeats an operand along every axis where its extent is 1.
\<close>

definition pad_rank :: "nat \<Rightarrow> nat list \<Rightarrow> nat list" where
  "pad_rank n sh = replicate (n - length sh) 1 @ sh"

definition broadcast_shape :: "nat list \<Rightarrow> nat list \<Rightarrow> error + nat list" where
  "broadcast_shape s t =
     (let n = max (length s) (length t); s' = pad_rank n s; t' = pad_rank n t
      in if list_all2 (\<lambda>a b. a = b \<or> a = 1 \<or> b = 1) s' t'
         then Inr (map2 (\<lambda>a b. if a = 1 then b else a) s' t')
         else Inl (ValueError ''operands could not be broadcast together''))"

definition bcast_item :: "'a ndarray \<Rightarrow> nat list \<Rightarrow> 'a" where
  \<comment> \<open>the element of \<open>A\<close> that stands at position \<open>idx\<close> of a broadcast result\<close>
  "bcast_item A idx =
     item A (map2 (\<lambda>d i. if d = 1 then 0 else i) (shape A) (drop (length idx - length (shape A)) idx))"

definition np_binop ::
  "(real \<Rightarrow> real \<Rightarrow> real) \<Rightarrow> real ndarray \<Rightarrow> real ndarray \<Rightarrow> error + real ndarray" where
  "np_binop f A B =
     and_then (broadcast_shape (shape A) (shape B)) (\<lambda>sh.
       Inr (tabulate sh (\<lambda>idx. f (bcast_item A idx) (bcast_item B idx))))"

definition np_mul :: "real ndarray \<Rightarrow> real ndarray \<Rightarrow> error + real ndarray" where
  "np_mul = np_binop (*)"

definition np_add :: "real ndarray \<Rightarrow> real ndarray \<Rightarrow> error + real ndarray" where
  "np_add = np_binop (+)"

definition broadcastable_to :: "nat list \<Rightarrow> nat list \<Rightarrow> bool" where
  \<comment> \<open>a value of shape \<open>v\<close> can be stored into, or added in place to, a region of shape \<open>s\<close>\<close>
  "broadcastable_to s v \<longleftrightarrow>
     length v \<le> length s \<and> list_all2 (\<lambda>a b. b = a \<or> b = 1) s (pad_rank (length s) v)"

definition store_vec :: "real ndarray \<Rightarrow> nat \<Rightarrow> nat \<Rightarrow> nat \<Rightarrow> real ndarray \<Rightarrow> error + real ndarray" where
  \<comment> \<open>\<^verbatim>\<open>Z[:, row, col, channel] = v\<close>: the array after the assignment\<close>
  "store_vec Z row col ch v =
     (if \<not> (length (shape Z) = 4 \<and> row < shape Z ! 1 \<and> col < shape Z ! 2 \<and> ch < shape Z ! 3)
      then Inl (IndexError ''index out of bounds'')
      else if \<not> broadcastable_to [shape Z ! 0] (shape v)
      then Inl (ValueError ''could not broadcast input array'')
      else Inr (tabulate (shape Z)
        (\<lambda>idx. if idx ! 1 = row \<and> idx ! 2 = col \<and> idx ! 3 = ch then bcast_item v [idx ! 0]
                else item Z idx)))"

definition store_mat :: "real ndarray \<Rightarrow> nat \<Rightarrow> nat \<Rightarrow> real ndarray \<Rightarrow> error + real ndarray" where
  \<comment> \<open>\<^verbatim>\<open>P[:, row, col, :] = M\<close>\<close>
  "store_mat P row col M =
     (if \<not> (length (shape P) = 4 \<and> row < shape P ! 1 \<and> col < shape P ! 2)
      then Inl (IndexError ''index out of bounds'')
      else if \<not> broadcastable_to [shape P ! 0, shape P ! 3] (shape M)
      then Inl (ValueError ''could not broadcast input array'')
      else Inr (tabulate (shape P)
        (\<lambda>idx. if idx ! 1 = row \<and> idx ! 2 = col then bcast_item M [idx ! 0, idx ! 3]
                else item P idx)))"

definition iadd_window ::
  "real ndarray \<Rightarrow> nat \<Rightarrow> nat \<Rightarrow> nat \<Rightarrow> nat \<Rightarrow> real ndarray \<Rightarrow> error + real ndarray" where
  \<comment> \<open>\<^verbatim>\<open>A[:, r0:r1, c0:c1, :] += V\<close>: every cell of the window is increased, the rest of
      \<open>A\<close> is kept\<close>
  "iadd_window A r0 r1 c0 c1 V =
     (if length (shape A) \<noteq> 4 then Inl (IndexError ''too many indices for array'')
      else let H = shape A ! 1; W = shape A ! 2;
               a = min r0 H; b = min r1 H; c = min c0 W; d = min c1 W
           in if \<not> broadcastable_to [shape A ! 0, b - a, d - c, shape A ! 3] (shape V)
              then Inl (ValueError ''operands could not be broadcast together'')
              else Inr (tabulate (shape A)
                (\<lambda>idx. if a \<le> idx ! 1 \<and> idx ! 1 < b \<and> c \<le> idx ! 2 \<and> idx ! 2 < d
                        then item A idx + bcast_item V [idx ! 0, idx ! 1 - a, idx ! 2 - c, idx ! 3]
                        else item A idx)))"

definition iadd_last_axis :: "real ndarray \<Rightarrow> nat \<Rightarrow> real ndarray \<Rightarrow> error + real ndarray" where
  \<comment> \<open>\<^verbatim>\<open>A[:, :, :, channel] += S\<close>\<close>
  "iadd_last_axis A ch S =
     (if \<not> (length (shape A) = 4 \<and> ch < shape A ! 3) then Inl (IndexError ''index out of bounds'')
      else if \<not> broadcastable_to (butlast (shape A)) (shape S)
      then Inl (ValueError ''operands could not be broadcast together'')
      else Inr (tabulate (shape A)
        (\<lambda>idx. if idx ! 3 = ch then item A idx + bcast_item S (butlast idx) else item A idx)))"

subsection \<open>Reductions\<close>

definition sum_axes_123 :: "real ndarray \<Rightarrow> error + real ndarray" where
  \<comment> \<open>\<^verbatim>\<open>np.sum(P, axis=(1, 2, 3))\<close>\<close>
  "sum_axes_123 P =
     (if length (shape P) < 4 then Inl (ValueError ''axis is out of bounds'')
      else if length (shape P) > 4 then Inl (Unmodelled ''array of rank above 4'')
      else Inr (tabulate [shape P ! 0]
             (\<lambda>idx. sum_list (map (\<lambda>r. item P (idx ! 0 # r)) (indices (tl (shape P)))))))"

definition sum_axis_0 :: "real ndarray \<Rightarrow> error + real ndarray" where
  \<comment> \<open>\<^verbatim>\<open>np.sum(Q, axis=0)\<close>\<close>
  "sum_axis_0 Q =
     (if shape Q = [] then Inl (ValueError ''axis is out of bounds'')
      else Inr (tabulate (tl (shape Q))
             (\<lambda>idx. sum_list (map (\<lambda>b. item Q (b # idx)) [0..<shape Q ! 0]))))"

definition sum_axes_012_row :: "real ndarray \<Rightarrow> error + real ndarray" where
  \<comment> \<open>\<^verbatim>\<open>dZ.sum(axis=(0, 1, 2)).reshape(1, -1)\<close>\<close>
  "sum_axes_012_row dZ =
     (if length (shape dZ) < 3 then Inl (ValueError ''axis is out of bounds'')
      else if length (shape dZ) \<noteq> 4 then Inl (Unmodelled ''gradient of another rank'')
      else Inr (tabulate [1, shape dZ ! 3]
             (\<lambda>idx. sum_list (map (\<lambda>r. item dZ (r @ [idx ! 1])) (indices (butlast (shape dZ)))))))"

fun max_list :: "real list \<Rightarrow> real" where
  "max_list [] = 0"
| "max_list (x # xs) = fold max xs x"

fun argmax_scan :: "real list \<Rightarrow> nat \<Rightarrow> nat \<Rightarrow> real \<Rightarrow> nat" where
  \<comment> \<open>the scan of \<^verbatim>\<open>np.argmax\<close>: a later element replaces the best one only when it is
      strictly greater\<close>
  "argmax_scan [] k best v = best"
| "argmax_scan (x # xs) k best v =
     (if v < x then argmax_scan xs (Suc k) k x else argmax_scan xs (Suc k) best v)"

definition argmax_list :: "real list \<Rightarrow> nat" where
  "argmax_list xs = (case xs of [] \<Rightarrow> 0 | x # xs' \<Rightarrow> argmax_scan xs' 1 0 x)"

definition window_cells :: "real ndarray \<Rightarrow> nat \<Rightarrow> nat \<Rightarrow> real list" where
  \<comment> \<open>the cells \<^verbatim>\<open>P[b, :, :, c]\<close> of a rank-4 array, row by row\<close>
  "window_cells P b c = map (\<lambda>r. item P [b, r ! 0, r ! 1, c]) (indices [shape P ! 1, shape P ! 2])"

datatype pool_fn = NpMax | NpMean

definition pool_value :: "pool_fn \<Rightarrow> real list \<Rightarrow> real" where
  \<comment> \<open>the maximum, or the mean, of the cells of one window\<close>
  "pool_value f xs = (case f of NpMax \<Rightarrow> max_list xs | NpMean \<Rightarrow> sum_list xs / real (length xs))"

definition reduce_axes_12 :: "pool_fn \<Rightarrow> real ndarray \<Rightarrow> error + real ndarray" where
  \<comment> \<open>\<^verbatim>\<open>np.max(P, axis=(1, 2))\<close> and \<^verbatim>\<open>np.mean(P, axis=(1, 2))\<close> on a rank-4 array\<close>
  "reduce_axes_12 f P =
     (if length (shape P) \<noteq> 4 then Inl (Unmodelled ''window of another rank'')
      else if shape P ! 1 * shape P ! 2 = 0
      then (case f of
              NpMax \<Rightarrow> Inl (ValueError ''zero-size array to reduction operation maximum'')
            | NpMean \<Rightarrow> Inl (Unmodelled ''mean of an empty window''))
      else Inr (tabulate [shape P ! 0, shape P ! 3]
             (\<lambda>idx. pool_value f (window_cells P (idx ! 0) (idx ! 1)))))"

definition argmax_axis_1 :: "real ndarray \<Rightarrow> error + nat ndarray" where
  \<comment> \<open>\<^verbatim>\<open>np.argmax(A, axis=1)\<close> on a rank-3 array\<close>
  "argmax_axis_1 A =
     (if length (shape A) \<noteq> 3 then Inl (Unmodelled ''array of another rank'')
      else if shape A ! 1 = 0 then Inl (ValueError ''attempt to get argmax of an empty sequence'')
      else Inr (tabulate [shape A ! 0, shape A ! 2]
        (\<lambda>idx. argmax_list (map (\<lambda>t. item A [idx ! 0, t, idx ! 1]) [0..<shape A ! 1]))))"

definition one_hot_axis_1 :: "nat list \<Rightarrow> nat ndarray \<Rightarrow> real ndarray" where
  \<comment> \<open>\<^verbatim>\<open>m = np.zeros(sh); m[exp_id, max_id, channel_id] = 1\<close> with the index grids of
      \<^verbatim>\<open>np.indices\<close>: one cell per example and channel is set\<close>
  "one_hot_axis_1 sh max_id =
     tabulate sh (\<lambda>idx. if idx ! 1 = item max_id [idx ! 0, idx ! 2] then 1 else 0)"

definition div_scalar :: "real ndarray \<Rightarrow> nat \<Rightarrow> error + real ndarray" where
  \<comment> \<open>\<^verbatim>\<open>G / n\<close> for an integer \<open>n\<close>\<close>
  "div_scalar G n =
     (if n = 0 then Inl (Unmodelled ''division of an array by zero'')
      else Inr (tabulate (shape G) (\<lambda>idx. item G idx / real n)))"

section \<open>Output size and padding\<close>

definition py_int :: "real \<Rightarrow> int" where
  \<comment> \<open>\<^verbatim>\<open>int(x)\<close> of a float: truncation toward zero\<close>
  "py_int x = (if 0 \<le> x then \<lfloor>x\<rfloor> else \<lceil>x\<rceil>)"

definition out_size :: "nat \<Rightarrow> int \<Rightarrow> nat \<Rightarrow> nat \<Rightarrow> error + int" where
  \<comment> \<open>\<^verbatim>\<open>int((in_rows + 2*pad - kernel) / stride + 1)\<close>, with \<^verbatim>\<open>/\<close> the true division\<close>
  "out_size n p k s =
     (if s = 0 then Inl ZeroDivisionError
      else Inr (py_int ((real n + 2 * real_of_int p - real k) / real s + 1)))"

datatype pad_mode = PadStr string | PadInt int | PadPair int int | PadOther

definition resolve_pad :: "pad_mode \<Rightarrow> nat \<times> nat \<Rightarrow> error + pad_mode" where
  \<comment> \<open>the \<^verbatim>\<open>if pad == "same" ... elif pad == "valid" ... elif isinstance(pad, int) ... else\<close>
      chain of \<^verbatim>\<open>Conv2D._init_parameters\<close> and \<^verbatim>\<open>Pool2D.__init__\<close>;
      \<^verbatim>\<open>//\<close> is the floor division\<close>
  "resolve_pad p k =
     (if p = PadStr ''same'' then Inr (PadPair ((int (fst k) - 1) div 2) ((int (snd k) - 1) div 2))
      else if p = PadStr ''valid'' then Inr (PadPair 0 0)
      else case p of
             PadInt n \<Rightarrow> Inr (PadPair n n)
           | _ \<Rightarrow> Inl (ValueError ''invalid Pad mode found in self.pad.''))"

definition pad_pair :: "pad_mode \<Rightarrow> error + int \<times> int" where
  \<comment> \<open>\<^verbatim>\<open>self.pad[0], self.pad[1]\<close> used as numbers\<close>
  "pad_pair p = (case p of
       PadPair a b \<Rightarrow> Inr (a, b)
     | PadStr s \<Rightarrow> Inl (TypeError ''unsupported operand types'')
     | PadInt n \<Rightarrow> Inl (TypeError ''int object is not subscriptable'')
     | PadOther \<Rightarrow> Inl (Unmodelled ''pad of another type''))"

section \<open>Layers\<close>

text \<open>
  The state every \<^verbatim>\<open>Layer\<close> carries.  The three dictionaries are association lists
  in insertion order (\<^verbatim>\<open>OrderedDict\<close>).  A cache entry is a Python list (empty until the
  first forward pass), an array or a shape tuple.
\<close>

datatype cache_val = CList "real ndarray list" | CArr "real ndarray" | CShape "nat list"

record layer =
  n_in :: "nat option"
  parameters :: "(string \<times> real ndarray) list"
  cache :: "(string \<times> cache_val) list"
  gradients :: "(string \<times> real ndarray) list"

definition lookup :: "(string \<times> 'v) list \<Rightarrow> string \<Rightarrow> error + 'v" where
  \<comment> \<open>\<^verbatim>\<open>d[key]\<close>\<close>
  "lookup d k = (case map_of d k of None \<Rightarrow> Inl (KeyError k) | Some v \<Rightarrow> Inr v)"

definition as_array :: "cache_val \<Rightarrow> error + real ndarray" where
  \<comment> \<open>a cache entry used as an array: a list or a tuple has no \<^verbatim>\<open>shape\<close>\<close>
  "as_array v = (case v of
       CArr A \<Rightarrow> Inr A
     | CList _ \<Rightarrow> Inl (AttributeError ''list object has no attribute shape'')
     | CShape _ \<Rightarrow> Inl (AttributeError ''tuple object has no attribute shape''))"

definition clear_gradients :: "'z layer_scheme \<Rightarrow> 'z layer_scheme" where
  "clear_gradients L = L\<lparr>
     cache := map (\<lambda>(a, b). (a, CList [])) (cache L),
     gradients := map (\<lambda>(a, b). (a, np_zeros_like b)) (gradients L)\<rparr>"

text \<open>
  The activation and the weight initialiser are external capabilities, held by the
  layer as functions.  The stride and the kernel extents are natural numbers.
\<close>

record activation_fn =
  act_call :: "real ndarray \<Rightarrow> real ndarray"
  act_backward :: "real ndarray \<Rightarrow> real ndarray \<Rightarrow> real ndarray"

record spatial = layer +
  kernel_shape :: "nat \<times> nat"
  stride :: nat
  pad :: pad_mode

subsection \<open>Conv2D\<close>

record conv2d = spatial +
  n_out :: nat
  activation :: activation_fn
  init_weights :: "nat list \<Rightarrow> real ndarray"

definition conv2d_init_parameters :: "conv2d \<Rightarrow> nat list \<Rightarrow> error + conv2d" where
  "conv2d_init_parameters L X_shape =
     (if length X_shape < 4 then Inl (IndexError ''tuple index out of range'')
      else let W_shape = [fst (kernel_shape L), snd (kernel_shape L), X_shape ! 3, n_out L];
               W = init_weights L W_shape;
               b = np_zeros [1, n_out L]
           in and_then (resolve_pad (pad L) (W_shape ! 0, W_shape ! 1)) (\<lambda>p.
                Inr (L\<lparr>n_in := Some (X_shape ! 3),
                       parameters := [(''W'', W), (''b'', b)],
                       cache := [(''Z'', CList []), (''X'', CList [])],
                       gradients := [(''W'', np_zeros_like W), (''b'', np_zeros_like b)],
                       pad := p\<rparr>)))"

definition conv2d_forward_step ::
  "real ndarray \<Rightarrow> real ndarray \<Rightarrow> real ndarray \<Rightarrow> nat \<Rightarrow> nat \<Rightarrow> nat \<Rightarrow>
   nat \<Rightarrow> nat \<Rightarrow> nat \<Rightarrow> real ndarray \<Rightarrow> error + real ndarray" where
  \<comment> \<open>the body of the three loops of \<^verbatim>\<open>Conv2D.forward\<close>\<close>
  "conv2d_forward_step padX W b s kh kw row col ch Z =
     and_then (last_axis W ch) (\<lambda>K.
     and_then (np_mul (window padX (row * s) (row * s + kh) (col * s) (col * s + kw)) K) (\<lambda>P.
     and_then (sum_axes_123 P) (\<lambda>S.
     and_then (column b ch) (\<lambda>bc.
     and_then (np_add S bc) (\<lambda>v.
     store_vec Z row col ch v)))))"

definition conv2d_forward ::
  "(nat list \<Rightarrow> real) \<Rightarrow> conv2d \<Rightarrow> real ndarray \<Rightarrow> error + real ndarray \<times> conv2d" where
  "conv2d_forward mem L0 X =
     and_then (if n_in L0 = None then conv2d_init_parameters L0 (shape X) else Inr L0) (\<lambda>L.
     and_then (lookup (parameters L) ''W'') (\<lambda>W.
     and_then (lookup (parameters L) ''b'') (\<lambda>b.
     and_then (unpack4 (shape W)) (\<lambda>(kh, kw, in_channels, out_channels).
     and_then (unpack4 (shape X)) (\<lambda>(n_examples, in_rows, in_cols, in_channels').
     and_then (pad_pair (pad L)) (\<lambda>(ph, pw).
     and_then (out_size in_rows ph kh (stride L)) (\<lambda>out_rows.
     and_then (out_size in_cols pw kw (stride L)) (\<lambda>out_cols.
     and_then (np_pad4 X ph pw) (\<lambda>padX.
     and_then (np_empty mem [int n_examples, out_rows, out_cols, int out_channels]) (\<lambda>Z0.
     and_then
       (for_each [0..<nat out_rows] (\<lambda>row.
          for_each [0..<nat out_cols] (\<lambda>col.
            for_each [0..<out_channels] (\<lambda>channel.
              conv2d_forward_step padX W b (stride L) kh kw row col channel))) Z0) (\<lambda>Z.
     Inr (act_call (activation L) Z,
          L\<lparr>cache := AList.update ''X'' (CArr X) (AList.update ''Z'' (CArr Z) (cache L))\<rparr>))))))))))))"

definition conv2d_backward_step ::
  "real ndarray \<Rightarrow> real ndarray \<Rightarrow> real ndarray \<Rightarrow> nat \<Rightarrow> nat \<Rightarrow> nat \<Rightarrow>
   nat \<Rightarrow> nat \<Rightarrow> nat \<Rightarrow> real ndarray \<times> real ndarray \<Rightarrow> error + real ndarray \<times> real ndarray" where
  \<comment> \<open>the body of the three loops of \<^verbatim>\<open>Conv2D.backward\<close>, on the pair \<open>(dX_pad, dW)\<close>\<close>
  "conv2d_backward_step X_pad W dZ s kh kw row col ch acc =
     and_then (last_axis W ch) (\<lambda>K.
     and_then (pick_channel dZ row col ch) (\<lambda>g.
     and_then (np_mul (new_axis_0 K) g) (\<lambda>V.
     and_then (iadd_window (fst acc) (row * s) (row * s + kh) (col * s) (col * s + kw) V) (\<lambda>dX_pad.
     and_then (pick_channel dZ row col ch) (\<lambda>g'.
     and_then (np_mul (window X_pad (row * s) (row * s + kh) (col * s) (col * s + kw)) g') (\<lambda>Q.
     and_then (sum_axis_0 Q) (\<lambda>S.
     and_then (iadd_last_axis (snd acc) ch S) (\<lambda>dW.
     Inr (dX_pad, dW)))))))))"

definition conv2d_backward :: "conv2d \<Rightarrow> real ndarray \<Rightarrow> error + real ndarray \<times> conv2d" where
  "conv2d_backward L dLdY =
     and_then (lookup (parameters L) ''W'') (\<lambda>W.
     and_then (lookup (parameters L) ''b'') (\<lambda>b.
     and_then (lookup (cache L) ''X'') (\<lambda>X'.
     and_then (lookup (cache L) ''Z'') (\<lambda>Z'.
     and_then (case Z' of CArr Z \<Rightarrow> Inr Z | _ \<Rightarrow> Inl (Unmodelled ''backward before forward'')) (\<lambda>Z.
     let dZ = act_backward (activation L) Z dLdY in
     and_then (as_array X') (\<lambda>X.
     and_then (unpack4 (shape X)) (\<lambda>(n_examples, in_rows, in_cols, in_channels).
     and_then (unpack4 (shape W)) (\<lambda>(kh, kw, in_channels', out_channels).
     and_then (pad_pair (pad L)) (\<lambda>(ph, pw).
     and_then (out_size in_rows ph kh (stride L)) (\<lambda>out_rows.
     and_then (out_size in_cols pw kw (stride L)) (\<lambda>out_cols.
     and_then (np_pad4 X ph pw) (\<lambda>X_pad.
     and_then (sum_axes_012_row dZ) (\<lambda>dB.
     and_then
       (for_each [0..<nat out_rows] (\<lambda>row.
          for_each [0..<nat out_cols] (\<lambda>col.
            for_each [0..<out_channels] (\<lambda>channel.
              conv2d_backward_step X_pad W dZ (stride L) kh kw row col channel)))
          (np_zeros_like X_pad, np_zeros_like W)) (\<lambda>(dX_pad, dW).
     Inr (window dX_pad (nat ph) (in_rows + nat ph) (nat pw) (in_cols + nat pw),
          L\<lparr>gradients := AList.update ''b'' dB (AList.update ''W'' dW (gradients L))\<rparr>)
     ))))))))))))))"

subsection \<open>Pool2D\<close>

datatype kernel_arg = KInt nat | KPair nat nat

record pool2d = spatial +
  mode :: string

definition Pool2D_init :: "kernel_arg \<Rightarrow> string \<Rightarrow> nat \<Rightarrow> pad_mode \<Rightarrow> error + pool2d" where
  \<comment> \<open>\<^verbatim>\<open>Pool2D.__init__\<close>.  The test of \<open>mode\<close> has no \<^verbatim>\<open>else\<close>: it only binds
      \<^verbatim>\<open>self.pool_fn\<close>, which no method reads, so any string is stored.\<close>
  "Pool2D_init ks mode' stride' pad' =
     (let k = (case ks of KInt n \<Rightarrow> (n, n) | KPair a b \<Rightarrow> (a, b))
      in and_then (resolve_pad pad' k) (\<lambda>p.
           Inr \<lparr>n_in = None, parameters = [],
                cache = [(''out_rows'', CList []), (''out_cols'', CList []), (''X_pad'', CList []),
                         (''p'', CList []), (''pool_shape'', CList [])],
                gradients = [],
                kernel_shape = k, stride = stride', pad = p, mode = mode'\<rparr>))"

definition select_pool_fn :: "string \<Rightarrow> pool_fn option" where
  \<comment> \<open>\<^verbatim>\<open>if self.mode == "max": pool_fn = np.max elif self.mode == "average": pool_fn = np.mean\<close>;
      \<open>None\<close> is the local variable left unbound\<close>
  "select_pool_fn m = (if m = ''max'' then Some NpMax else if m = ''average'' then Some NpMean else None)"

definition pool2d_forward_step ::
  "real ndarray \<Rightarrow> pool_fn option \<Rightarrow> nat \<Rightarrow> nat \<Rightarrow> nat \<Rightarrow> nat \<Rightarrow> nat \<Rightarrow>
   real ndarray \<Rightarrow> error + real ndarray" where
  "pool2d_forward_step X_pad pool_fn' s kh kw row col P =
     (case pool_fn' of
        None \<Rightarrow> Inl (UnboundLocalError ''pool_fn'')
      | Some f \<Rightarrow>
          and_then (reduce_axes_12 f (window X_pad (row * s) (row * s + kh) (col * s) (col * s + kw)))
            (\<lambda>M. store_mat P row col M))"

definition pool2d_forward :: "pool2d \<Rightarrow> real ndarray \<Rightarrow> error + real ndarray \<times> pool2d" where
  "pool2d_forward L X =
     and_then (unpack4 (shape X)) (\<lambda>(n_examples, in_rows, in_cols, in_channels).
     and_then (pad_pair (pad L)) (\<lambda>(ph, pw).
     and_then (out_size in_rows ph (fst (kernel_shape L)) (stride L)) (\<lambda>out_rows.
     and_then (out_size in_cols pw (snd (kernel_shape L)) (stride L)) (\<lambda>out_cols.
     and_then (np_pad4 X ph pw) (\<lambda>X_pad.
     and_then (np_zeros_dims [int n_examples, out_rows, out_cols, int in_channels]) (\<lambda>P0.
     and_then
       (for_each [0..<nat out_rows] (\<lambda>row.
          for_each [0..<nat out_cols] (\<lambda>col.
            pool2d_forward_step X_pad (select_pool_fn (mode L)) (stride L)
              (fst (kernel_shape L)) (snd (kernel_shape L)) row col)) P0) (\<lambda>X_pooled.
     Inr (X_pooled, L\<lparr>cache := AList.update ''X'' (CArr X) (cache L)\<rparr>))))))))"

definition max_mask :: "real ndarray \<Rightarrow> nat \<Rightarrow> nat \<Rightarrow> error + real ndarray" where
  \<comment> \<open>the mask of \<^verbatim>\<open>Pool2D.backward\<close>: the window reshaped to
      \<open>[n_examples, kh * kw, in_channels]\<close>, its argmax along axis 1, a one at each argmax,
      reshaped back to \<open>[n_examples, kh, kw, in_channels]\<close>\<close>
  "max_mask P kh kw =
     and_then (np_reshape P [shape P ! 0, kh * kw, shape P ! 3]) (\<lambda>xi_reshape.
     and_then (argmax_axis_1 xi_reshape) (\<lambda>max_id.
     np_reshape (one_hot_axis_1 (shape xi_reshape) max_id) [shape P ! 0, kh, kw, shape P ! 3]))"

definition pool2d_backward_step ::
  "real ndarray \<Rightarrow> real ndarray \<Rightarrow> string \<Rightarrow> nat \<Rightarrow> nat \<Rightarrow> nat \<Rightarrow> nat \<Rightarrow> nat \<Rightarrow>
   real ndarray \<Rightarrow> error + real ndarray" where
  "pool2d_backward_step X_pad dLdY m s kh kw row col dX =
     (if m = ''average'' then
        and_then (pick_row_col dLdY row col) (\<lambda>g.
        and_then (div_scalar g (kh * kw)) (\<lambda>V.
        iadd_window dX (row * s) (row * s + kh) (col * s) (col * s + kw) V))
      else if m = ''max'' then
        and_then (max_mask (window X_pad (row * s) (row * s + kh) (col * s) (col * s + kw)) kh kw) (\<lambda>x_mask.
        and_then (pick_row_col dLdY row col) (\<lambda>g.
        and_then (np_mul x_mask g) (\<lambda>V.
        iadd_window dX (row * s) (row * s + kh) (col * s) (col * s + kw) V)))
      else Inr dX)"

definition pool2d_backward :: "pool2d \<Rightarrow> real ndarray \<Rightarrow> error + real ndarray" where
  "pool2d_backward L dLdY =
     and_then (lookup (cache L) ''out_rows'') (\<lambda>_.
     and_then (lookup (cache L) ''out_cols'') (\<lambda>_.
     and_then (lookup (cache L) ''X'') (\<lambda>X'.
     and_then (as_array X') (\<lambda>X.
     and_then (unpack4 (shape X)) (\<lambda>(n_examples, in_rows, in_cols, in_channels).
     and_then (pad_pair (pad L)) (\<lambda>(ph, pw).
     and_then (out_size in_rows ph (fst (kernel_shape L)) (stride L)) (\<lambda>out_rows.
     and_then (out_size in_cols pw (snd (kernel_shape L)) (stride L)) (\<lambda>out_cols.
     and_then (np_pad4 X ph pw) (\<lambda>X_pad.
     and_then
       (for_each [0..<nat out_rows] (\<lambda>row.
          for_each [0..<nat out_cols] (\<lambda>col.
            pool2d_backward_step X_pad dLdY (mode L) (stride L)
              (fst (kernel_shape L)) (snd (kernel_shape L)) row col)) (np_zeros_like X_pad)) (\<lambda>dX.
     Inr (window dX (nat ph) (in_rows + nat ph) (nat pw) (in_cols + nat pw))))))))))))"

subsection \<open>Flatten\<close>

datatype keep = KeepStr string | KeepInt int

record flatten = layer +
  keep_dim :: keep

definition Flatten_init :: "keep \<Rightarrow> flatten" where
  "Flatten_init k = \<lparr>n_in = None, parameters = [], cache = [(''in_dims'', CList [])],
                     gradients = [], keep_dim = k\<rparr>"

definition reshape_rows :: "'a ndarray \<Rightarrow> nat \<Rightarrow> error + 'a ndarray" where
  \<comment> \<open>\<^verbatim>\<open>A.reshape(n, -1)\<close>: numpy infers the second extent\<close>
  "reshape_rows A n =
     (if n = 0 \<or> length (elems A) mod n \<noteq> 0 then Inl (ValueError ''cannot reshape array'')
      else np_reshape A [n, length (elems A) div n])"

definition reshape_cols :: "'a ndarray \<Rightarrow> nat \<Rightarrow> error + 'a ndarray" where
  \<comment> \<open>\<^verbatim>\<open>A.reshape(-1, n)\<close>\<close>
  "reshape_cols A n =
     (if n = 0 \<or> length (elems A) mod n \<noteq> 0 then Inl (ValueError ''cannot reshape array'')
      else np_reshape A [length (elems A) div n, n])"

definition flatten_forward :: "flatten \<Rightarrow> 'a ndarray \<Rightarrow> error + 'a ndarray \<times> flatten" where
  \<comment> \<open>the shape is cached before anything can raise\<close>
  "flatten_forward L0 X =
     (let L = L0\<lparr>cache := AList.update ''in_dims'' (CShape (shape X)) (cache L0)\<rparr>
      in if keep_dim L = KeepInt (- 1)
         then and_then (np_reshape X [length (elems X)]) (\<lambda>flat.
              and_then (reshape_rows flat 1) (\<lambda>Y. Inr (Y, L)))
         else if keep_dim L = KeepStr ''first''
         then (if shape X = [] then Inl (IndexError ''tuple index out of range'')
               else and_then (reshape_rows X (hd (shape X))) (\<lambda>Y. Inr (Y, L)))
         else (if shape X = [] then Inl (IndexError ''tuple index out of range'')
               else and_then (reshape_cols X (last (shape X))) (\<lambda>Y. Inr (Y, L))))"

definition flatten_backward :: "flatten \<Rightarrow> 'a ndarray \<Rightarrow> error + 'a ndarray" where
  "flatten_backward L dLdY =
     and_then (lookup (cache L) ''in_dims'') (\<lambda>in_dims.
       case in_dims of
         CShape sh \<Rightarrow> np_reshape dLdY sh
       | CList [] \<Rightarrow> np_reshape dLdY []
       | _ \<Rightarrow> Inl (Unmodelled ''in_dims is not a shape''))"

subsection \<open>FullyConnected and the layer factory\<close>

record fully_connected = layer +
  fc_n_out :: nat
  fc_activation :: activation_fn
  fc_init_weights :: "nat list \<Rightarrow> real ndarray"

text \<open>
  \<^verbatim>\<open>initialize_activation\<close> and \<^verbatim>\<open>initialize_weights\<close> belong to other modules; the
  constructors take them as \<open>caps\<close>.
\<close>

record capabilities =
  initialize_activation :: "string option \<Rightarrow> error + activation_fn"
  initialize_weights :: "string option \<Rightarrow> string option \<Rightarrow> error + (nat list \<Rightarrow> real ndarray)"

definition FullyConnected_init ::
  "capabilities \<Rightarrow> nat \<Rightarrow> string option \<Rightarrow> string option \<Rightarrow> error + fully_connected" where
  "FullyConnected_init caps n_out' activation' weight_init =
     and_then (initialize_activation caps activation') (\<lambda>a.
     and_then (initialize_weights caps weight_init activation') (\<lambda>w.
     Inr \<lparr>n_in = None, parameters = [], cache = [], gradients = [],
          fc_n_out = n_out', fc_activation = a, fc_init_weights = w\<rparr>))"

definition Conv2D_init ::
  "capabilities \<Rightarrow> nat \<Rightarrow> nat \<times> nat \<Rightarrow> string option \<Rightarrow> nat \<Rightarrow> pad_mode \<Rightarrow> string option \<Rightarrow>
   error + conv2d" where
  "Conv2D_init caps n_out' ks activation' stride' pad' weight_init =
     and_then (initialize_activation caps activation') (\<lambda>a.
     and_then (initialize_weights caps weight_init activation') (\<lambda>w.
     Inr \<lparr>n_in = None, parameters = [], cache = [], gradients = [],
          kernel_shape = ks, stride = stride', pad = pad',
          n_out = n_out', activation = a, init_weights = w\<rparr>))"

datatype layer_obj =
    FullyConnected fully_connected
  | Conv2D conv2d
  | Pool2D pool2d
  | Flatten flatten

record config =
  cfg_activation :: "string option"
  cfg_weight_init :: "string option"
  cfg_n_out :: "nat option"
  cfg_kernel_shape :: "kernel_arg option"
  cfg_stride :: "nat option"
  cfg_pad :: pad_mode
  cfg_mode :: "string option"
  cfg_keep_dim :: keep

definition required :: "'a option \<Rightarrow> error + 'a" where
  \<comment> \<open>a keyword argument the chosen constructor needs; the model does not follow a
      \<^verbatim>\<open>None\<close> into the layer\<close>
  "required v = (case v of None \<Rightarrow> Inl (Unmodelled ''argument left at None'') | Some x \<Rightarrow> Inr x)"

definition initialize_layer :: "capabilities \<Rightarrow> string \<Rightarrow> config \<Rightarrow> error + layer_obj" where
  "initialize_layer caps name c =
     (if name = ''fully_connected'' then
        and_then (required (cfg_n_out c)) (\<lambda>n.
        and_then (FullyConnected_init caps n (cfg_activation c) (cfg_weight_init c)) (\<lambda>L.
        Inr (FullyConnected L)))
      else if name = ''conv2d'' then
        and_then (required (cfg_n_out c)) (\<lambda>n.
        and_then (required (cfg_kernel_shape c)) (\<lambda>k.
        and_then (case k of KPair a b \<Rightarrow> Inr (a, b)
                          | KInt _ \<Rightarrow> Inl (Unmodelled ''integer kernel shape'')) (\<lambda>k'.
        and_then (required (cfg_stride c)) (\<lambda>s.
        and_then (Conv2D_init caps n k' (cfg_activation c) s (cfg_pad c) (cfg_weight_init c)) (\<lambda>L.
        Inr (Conv2D L))))))
      else if name = ''pool2d'' then
        and_then (required (cfg_kernel_shape c)) (\<lambda>k.
        and_then (required (cfg_mode c)) (\<lambda>m.
        and_then (required (cfg_stride c)) (\<lambda>s.
        and_then (Pool2D_init k m s (cfg_pad c)) (\<lambda>L.
        Inr (Pool2D L)))))
      else if name = ''flatten'' then Inr (Flatten (Flatten_init (cfg_keep_dim c)))
      else Inl (NameError ''name NotimplementedError is not defined''))"

section \<open>Arrays: reading what was tabulated\<close>

lemma length_concat_upt:
  assumes "\<And>k. k < n \<Longrightarrow> length (g k) = m"
  shows "length (concat (map g [0..<n])) = n * m"
  using assms by (induction n) simp_all

lemma nth_concat_upt:
  assumes "\<And>k. k < n \<Longrightarrow> length (g k) = m" and "k < n" and "r < m"
  shows "concat (map g [0..<n]) ! (k * m + r) = g k ! r"
  using assms
proof (induction n)
  case 0
  then show ?case by simp
next
  case (Suc n)
  have len: "length (concat (map g [0..<n])) = n * m"
    using Suc.prems(1) by (intro length_concat_upt) simp
  show ?case
  proof (cases "k < n")
    case True
    have "k * m + r < n * m"
    proof -
      have "Suc k * m \<le> n * m" using True by (intro mult_le_mono1) simp
      then show ?thesis using \<open>r < m\<close> by simp
    qed
    then show ?thesis using Suc True len by (simp add: nth_append)
  next
    case False
    then have "k = n" using Suc.prems(2) by simp
    then show ?thesis using len by (simp add: nth_append)
  qed
qed

lemma length_indices: "length (indices sh) = prod_list sh"
proof (induction sh)
  case Nil
  then show ?case by simp
next
  case (Cons d ds)
  have "length (concat (map (\<lambda>i. map ((#) i) (indices ds)) [0..<d])) = d * prod_list ds"
    by (rule length_concat_upt) (simp add: Cons)
  then show ?case by simp
qed

lemma in_bounds_Cons: "in_bounds (d # ds) idx \<longleftrightarrow> (\<exists>i is. idx = i # is \<and> i < d \<and> in_bounds ds is)"
  by (auto simp: in_bounds_def list_all2_Cons2)

lemma in_bounds_simps [simp]:
  "in_bounds [] idx \<longleftrightarrow> idx = []"
  "in_bounds (d # ds) (i # is) \<longleftrightarrow> i < d \<and> in_bounds ds is"
  "\<not> in_bounds (d # ds) []"
  by (auto simp: in_bounds_def)

lemma offset_less: "in_bounds sh idx \<Longrightarrow> offset sh idx < prod_list sh"
proof (induction sh arbitrary: idx)
  case Nil
  then show ?case by simp
next
  case (Cons d ds)
  then obtain i "is" where idx: "idx = i # is" and i: "i < d" and rest: "in_bounds ds is"
    by (auto simp: in_bounds_Cons)
  have "offset ds is < prod_list ds" using Cons.IH rest by simp
  moreover have "Suc i * prod_list ds \<le> d * prod_list ds"
    using i by (intro mult_le_mono1) simp
  ultimately show ?case using idx by simp
qed

lemma nth_indices: "in_bounds sh idx \<Longrightarrow> indices sh ! offset sh idx = idx"
proof (induction sh arbitrary: idx)
  case Nil
  then show ?case by simp
next
  case (Cons d ds)
  then obtain i "is" where idx: "idx = i # is" and i: "i < d" and rest: "in_bounds ds is"
    by (auto simp: in_bounds_Cons)
  have lt: "offset ds is < prod_list ds" using rest by (rule offset_less)
  have "concat (map (\<lambda>i. map ((#) i) (indices ds)) [0..<d]) ! (i * prod_list ds + offset ds is)
        = map ((#) i) (indices ds) ! offset ds is"
    by (rule nth_concat_upt) (simp_all add: length_indices i lt)
  then show ?case using idx lt Cons.IH[OF rest] by (simp add: length_indices)
qed

lemma shape_tabulate [simp]: "shape (tabulate sh f) = sh"
  by (simp add: tabulate_def)

lemma well_shaped_tabulate [simp]: "well_shaped (tabulate sh f)"
  by (simp add: well_shaped_def tabulate_def length_indices)

lemma item_tabulate [simp]: "in_bounds sh idx \<Longrightarrow> item (tabulate sh f) idx = f idx"
  by (simp add: item_def tabulate_def nth_indices offset_less length_indices)

lemma set_indices: "set (indices sh) = {idx. in_bounds sh idx}"
proof (induction sh)
  case Nil
  then show ?case by auto
next
  case (Cons d ds)
  show ?case
  proof (intro set_eqI iffI)
    fix idx assume "idx \<in> set (indices (d # ds))"
    then show "idx \<in> {idx. in_bounds (d # ds) idx}" using Cons by auto
  next
    fix idx assume "idx \<in> {idx. in_bounds (d # ds) idx}"
    then obtain i "is" where "idx = i # is" "i < d" "in_bounds ds is"
      by (auto simp: in_bounds_Cons)
    then show "idx \<in> set (indices (d # ds))" using Cons by auto
  qed
qed

lemma sum_list_concat_map: "sum_list (concat xss) = sum_list (map sum_list xss)" for xss :: "real list list"
  by (induction xss) simp_all

lemma sum_list_indices_Cons:
  "sum_list (map g (indices (d # ds))) =
     (\<Sum>i<d. sum_list (map (\<lambda>is. g (i # is)) (indices ds)))" for g :: "nat list \<Rightarrow> real"
proof -
  have "sum_list (map g (indices (d # ds))) =
        sum_list (map (\<lambda>i. sum_list (map (\<lambda>is. g (i # is)) (indices ds))) [0..<d])"
    by (simp add: map_concat sum_list_concat_map comp_def)
  also have "\<dots> = (\<Sum>i<d. sum_list (map (\<lambda>is. g (i # is)) (indices ds)))"
    by (simp add: interv_sum_list_conv_sum_set_nat lessThan_atLeast0)
  finally show ?thesis .
qed

lemma sum_list_indices_Nil: "sum_list (map g (indices [])) = g []" for g :: "nat list \<Rightarrow> real"
  by simp

section \<open>Output size\<close>

lemma out_size_floor:
  assumes "0 < s" and "int k \<le> int n + 2 * p + int s"
  shows "out_size n p k s = Inr (\<lfloor>(real n + 2 * real_of_int p - real k) / real s\<rfloor> + 1)"
proof -
  have "- real s \<le> real n + 2 * real_of_int p - real k"
  proof -
    have "real_of_int (int k) \<le> real_of_int (int n + 2 * p + int s)"
      using assms(2) by (rule of_int_le_iff[THEN iffD2])
    then show ?thesis by simp
  qed
  then have "- 1 \<le> (real n + 2 * real_of_int p - real k) / real s"
    using assms(1) by (simp add: pos_le_divide_eq)
  then have "0 \<le> (real n + 2 * real_of_int p - real k) / real s + 1" by simp
  then show ?thesis using assms(1) by (simp add: out_size_def py_int_def)
qed

lemma elems_np_zeros: "elems (np_zeros sh) = replicate (prod_list sh) 0"
  by (simp add: np_zeros_def tabulate_def map_replicate_const length_indices)

section \<open>Loops\<close>

lemma and_then_Inr [simp]: "and_then (Inr x) f = f x"
  by (simp add: and_then_def)

lemma and_then_Inl [simp]: "and_then (Inl e) f = Inl e"
  by (simp add: and_then_def)

lemma for_each_fold:
  assumes "\<And>i s. i \<in> set is \<Longrightarrow> I s \<Longrightarrow> body i s = Inr (g i s) \<and> I (g i s)" and "I s"
  shows "for_each is body s = Inr (fold g is s) \<and> I (fold g is s)"
  using assms
proof (induction "is" arbitrary: s)
  case Nil
  then show ?case by simp
next
  case (Cons i "is")
  have step: "body i s = Inr (g i s)" "I (g i s)" using Cons.prems by simp_all
  have "for_each is body (g i s) = Inr (fold g is (g i s)) \<and> I (fold g is (g i s))"
    using Cons.prems(1) step(2) by (intro Cons.IH) simp_all
  then show ?case using step by simp
qed

lemma fold_assign:
  assumes step: "\<And>k s. k \<in> set ks \<Longrightarrow> I s \<Longrightarrow>
              I (u k s) \<and> get (u k s) = (if hit k then v else get s)"
    and "I s"
  shows "I (fold u ks s) \<and> get (fold u ks s) = (if \<exists>k\<in>set ks. hit k then v else get s)"
  using assms
proof (induction ks arbitrary: s)
  case Nil
  then show ?case by simp
next
  case (Cons k ks)
  have s1: "I (u k s)" "get (u k s) = (if hit k then v else get s)"
    using Cons.prems by simp_all
  have "I (fold u ks (u k s)) \<and>
        get (fold u ks (u k s)) = (if \<exists>k\<in>set ks. hit k then v else get (u k s))"
    using Cons.prems(1) s1(1) by (intro Cons.IH) simp_all
  then show ?case using s1 by auto
qed

lemma fold_accumulate:
  fixes get :: "'s \<Rightarrow> real"
  assumes step: "\<And>k s. k \<in> set ks \<Longrightarrow> I s \<Longrightarrow> I (u k s) \<and> get (u k s) = get s + c k"
    and "I s"
  shows "I (fold u ks s) \<and> get (fold u ks s) = get s + sum_list (map c ks)"
  using assms
proof (induction ks arbitrary: s)
  case Nil
  then show ?case by simp
next
  case (Cons k ks)
  have s1: "I (u k s)" "get (u k s) = get s + c k"
    using Cons.prems by simp_all
  have "I (fold u ks (u k s)) \<and>
        get (fold u ks (u k s)) = get (u k s) + sum_list (map c ks)"
    using Cons.prems(1) s1(1) by (intro Cons.IH) simp_all
  then show ?case using s1 by simp
qed

lemma tabulate_cong:
  assumes "\<And>idx. in_bounds sh idx \<Longrightarrow> f idx = g idx"
  shows "tabulate sh f = tabulate sh g"
  using assms by (simp add: tabulate_def set_indices)

section \<open>Output size: windows stay inside the padded input\<close>

lemma out_size_stride_pos: "out_size n p k s = Inr m \<Longrightarrow> 0 < s"
  by (cases "s = 0") (simp_all add: out_size_def)

lemma out_size_window_fits:
  assumes sz: "out_size n (int p) k s = Inr m" and r: "int r < m"
  shows "r * s + k \<le> n + 2 * p"
proof -
  have s: "0 < s" using sz by (rule out_size_stride_pos)
  define y where "y = (real n + 2 * real p - real k) / real s + 1"
  have m: "m = py_int y" using sz s by (simp add: out_size_def y_def)
  have m1: "1 \<le> m" using r by linarith
  have y0: "0 \<le> y"
  proof (rule ccontr)
    assume "\<not> 0 \<le> y"
    then have "y < 0" by simp
    then have "\<lceil>y\<rceil> \<le> 0" by (simp add: ceiling_le_iff)
    then show False using m m1 \<open>y < 0\<close> by (simp add: py_int_def)
  qed
  then have "m = \<lfloor>y\<rfloor>" using m by (simp add: py_int_def)
  then have "real_of_int m \<le> y" by simp
  moreover have "real r + 1 \<le> real_of_int m"
  proof -
    have "int r + 1 \<le> m" using r by simp
    then have "real_of_int (int r + 1) \<le> real_of_int m" by (rule of_int_le_iff[THEN iffD2])
    then show ?thesis by simp
  qed
  ultimately have "real r \<le> (real n + 2 * real p - real k) / real s"
    by (simp add: y_def)
  then have "real r * real s \<le> real n + 2 * real p - real k"
    using s by (simp add: pos_le_divide_eq)
  then have "real (r * s + k) \<le> real (n + 2 * p)" by simp
  then show ?thesis by (rule of_nat_le_iff[THEN iffD1])
qed

section \<open>numpy operations on the shapes the layers use\<close>

declare indices.simps [simp del]

lemma if_unit_extent [simp]: "i < d \<Longrightarrow> (if d = Suc 0 then 0 else i) = i"
  by auto

lemma if_unit_self [simp]: "(if d = Suc 0 then Suc 0 else d) = d"
  by auto

lemma window_fits:
  assumes "shape A = [B, H, W, C]" and "r0 + kh \<le> H" and "c0 + kw \<le> W"
  shows "window A r0 (r0 + kh) c0 (c0 + kw)
         = tabulate [B, kh, kw, C] (\<lambda>idx. item A [idx ! 0, r0 + idx ! 1, c0 + idx ! 2, idx ! 3])"
proof -
  have "min r0 H = r0" "min (r0 + kh) H = r0 + kh" "min c0 W = c0" "min (c0 + kw) W = c0 + kw"
    using assms by simp_all
  then show ?thesis using assms(1) by (simp add: window_def Let_def)
qed

lemma last_axis_kernel:
  assumes "shape W = [kh, kw, C, och]" and "ch < och"
  shows "last_axis W ch = Inr (tabulate [kh, kw, C] (\<lambda>idx. item W (idx @ [ch])))"
  using assms by (simp add: last_axis_def)

lemma mul_window_kernel:
  "np_mul (tabulate [B, kh, kw, C] f) (tabulate [kh, kw, C] g)
   = Inr (tabulate [B, kh, kw, C] (\<lambda>idx. f idx * g (tl idx)))"
proof -
  have sh: "broadcast_shape [B, kh, kw, C] [kh, kw, C] = Inr [B, kh, kw, C]"
    by (simp add: broadcast_shape_def pad_rank_def Let_def)
  have "tabulate [B, kh, kw, C]
          (\<lambda>idx. bcast_item (tabulate [B, kh, kw, C] f) idx * bcast_item (tabulate [kh, kw, C] g) idx)
        = tabulate [B, kh, kw, C] (\<lambda>idx. f idx * g (tl idx))"
  proof (rule tabulate_cong)
    fix idx assume "in_bounds [B, kh, kw, C] idx"
    then obtain n i j m where idx: "idx = [n, i, j, m]" and b: "n < B" "i < kh" "j < kw" "m < C"
      by (auto simp: in_bounds_Cons)
    show "bcast_item (tabulate [B, kh, kw, C] f) idx * bcast_item (tabulate [kh, kw, C] g) idx
          = f idx * g (tl idx)"
      using b by (simp add: idx bcast_item_def)
  qed
  then show ?thesis using sh by (simp add: np_mul_def np_binop_def)
qed

lemma sum_axes_123_tabulate:
  "sum_axes_123 (tabulate [B, kh, kw, C] f)
   = Inr (tabulate [B] (\<lambda>idx. sum_list (map (\<lambda>r. f (idx ! 0 # r)) (indices [kh, kw, C]))))"
proof -
  have "tabulate [B] (\<lambda>idx. sum_list (map (\<lambda>r. item (tabulate [B, kh, kw, C] f) (idx ! 0 # r))
                                   (indices [kh, kw, C])))
        = tabulate [B] (\<lambda>idx. sum_list (map (\<lambda>r. f (idx ! 0 # r)) (indices [kh, kw, C])))"
  proof (rule tabulate_cong)
    fix idx assume "in_bounds [B] idx"
    then obtain n where idx: "idx = [n]" and n: "n < B" by (auto simp: in_bounds_Cons)
    have "sum_list (map (\<lambda>r. item (tabulate [B, kh, kw, C] f) (n # r)) (indices [kh, kw, C]))
          = sum_list (map (\<lambda>r. f (n # r)) (indices [kh, kw, C]))"
      using n by (intro arg_cong[where f = sum_list] map_cong refl) (simp add: set_indices)
    then show "sum_list (map (\<lambda>r. item (tabulate [B, kh, kw, C] f) (idx ! 0 # r)) (indices [kh, kw, C]))
               = sum_list (map (\<lambda>r. f (idx ! 0 # r)) (indices [kh, kw, C]))"
      by (simp add: idx)
  qed
  then show ?thesis by (simp add: sum_axes_123_def)
qed

lemma column_bias:
  assumes "shape b = [Suc 0, och]" and "ch < och"
  shows "column b ch = Inr (tabulate [Suc 0] (\<lambda>idx. item b [idx ! 0, ch]))"
  using assms by (simp add: column_def)

lemma add_vector_bias:
  "np_add (tabulate [B] f) (tabulate [Suc 0] g) = Inr (tabulate [B] (\<lambda>idx. f idx + g [0]))"
proof -
  have sh: "broadcast_shape [B] [Suc 0] = Inr [B]"
    by (simp add: broadcast_shape_def pad_rank_def Let_def)
  have "tabulate [B] (\<lambda>idx. bcast_item (tabulate [B] f) idx + bcast_item (tabulate [Suc 0] g) idx)
        = tabulate [B] (\<lambda>idx. f idx + g [0])"
  proof (rule tabulate_cong)
    fix idx assume "in_bounds [B] idx"
    then obtain n where idx: "idx = [n]" and n: "n < B" by (auto simp: in_bounds_Cons)
    show "bcast_item (tabulate [B] f) idx + bcast_item (tabulate [Suc 0] g) idx = f idx + g [0]"
      using n by (simp add: idx bcast_item_def)
  qed
  then show ?thesis using sh by (simp add: np_add_def np_binop_def)
qed

lemma store_vec_tabulate:
  assumes "shape Z = [B, R, Cc, och]" and "row < R" and "col < Cc" and "ch < och"
  shows "store_vec Z row col ch (tabulate [B] f)
         = Inr (tabulate [B, R, Cc, och]
             (\<lambda>idx. if idx ! 1 = row \<and> idx ! 2 = col \<and> idx ! 3 = ch then f [idx ! 0]
                     else item Z idx))"
proof -
  have bc: "broadcastable_to [B] [B]" by (simp add: broadcastable_to_def pad_rank_def)
  have "tabulate [B, R, Cc, och]
          (\<lambda>idx. if idx ! 1 = row \<and> idx ! 2 = col \<and> idx ! 3 = ch
                  then bcast_item (tabulate [B] f) [idx ! 0] else item Z idx)
        = tabulate [B, R, Cc, och]
          (\<lambda>idx. if idx ! 1 = row \<and> idx ! 2 = col \<and> idx ! 3 = ch then f [idx ! 0] else item Z idx)"
  proof (rule tabulate_cong)
    fix idx assume "in_bounds [B, R, Cc, och] idx"
    then obtain n i j m where idx: "idx = [n, i, j, m]" and b: "n < B"
      by (auto simp: in_bounds_Cons)
    show "(if idx ! 1 = row \<and> idx ! 2 = col \<and> idx ! 3 = ch
           then bcast_item (tabulate [B] f) [idx ! 0] else item Z idx)
          = (if idx ! 1 = row \<and> idx ! 2 = col \<and> idx ! 3 = ch then f [idx ! 0] else item Z idx)"
      using b by (simp add: idx bcast_item_def)
  qed
  then show ?thesis using assms bc by (simp add: store_vec_def)
qed

section \<open>Conv2D forward\<close>

lemma sum_list_indices3:
  "sum_list (map g (indices [a, b, c])) = (\<Sum>i<a. \<Sum>j<b. \<Sum>m<c. g [i, j, m])"
  for g :: "nat list \<Rightarrow> real"
  by (simp add: sum_list_indices_Cons indices.simps(1))

lemma conv2d_forward_step_eq:
  assumes "shape padX = [B, Hp, Wp, C]" and "shape W = [kh, kw, C, och]" and "shape b = [1, och]"
    and "shape Z = [B, R, Cc, och]" and "row < R" and "col < Cc" and "ch < och"
    and "row * s + kh \<le> Hp" and "col * s + kw \<le> Wp"
  shows "conv2d_forward_step padX W b s kh kw row col ch Z
         = Inr (tabulate [B, R, Cc, och]
             (\<lambda>idx. if idx ! 1 = row \<and> idx ! 2 = col \<and> idx ! 3 = ch
                     then (\<Sum>i<kh. \<Sum>j<kw. \<Sum>m<C.
                             item padX [idx ! 0, row * s + i, col * s + j, m] * item W [i, j, m, ch])
                          + item b [0, ch]
                     else item Z idx))"
  using assms
  by (simp add: conv2d_forward_step_def last_axis_kernel window_fits mul_window_kernel
      sum_axes_123_tabulate column_bias add_vector_bias store_vec_tabulate sum_list_indices3
      cong: if_cong)

lemma conv2d_forward_loops:
  fixes padX W b :: "real ndarray"
  defines "val \<equiv> \<lambda>s kh kw C n r c k.
            (\<Sum>i<kh. \<Sum>j<kw. \<Sum>m<C. item padX [n, r * s + i, c * s + j, m] * item W [i, j, m, k])
            + item b [0, k]"
  assumes padX: "shape padX = [B, Hp, Wp, C]" and W: "shape W = [kh, kw, C, och]"
    and b: "shape b = [1, och]" and Z0: "shape Z0 = [B, R, Cc, och]"
    and rows: "\<And>row. row < R \<Longrightarrow> row * s + kh \<le> Hp"
    and cols: "\<And>col. col < Cc \<Longrightarrow> col * s + kw \<le> Wp"
  shows "\<exists>Z. for_each [0..<R] (\<lambda>row. for_each [0..<Cc] (\<lambda>col. for_each [0..<och] (\<lambda>ch.
               conv2d_forward_step padX W b s kh kw row col ch))) Z0 = Inr Z
             \<and> shape Z = [B, R, Cc, och]
             \<and> (\<forall>n<B. \<forall>r<R. \<forall>c<Cc. \<forall>k<och. item Z [n, r, c, k] = val s kh kw C n r c k)"
proof -
  let ?sh = "[B, R, Cc, och]"
  define g1 where "g1 = (\<lambda>row col ch Z. tabulate ?sh
      (\<lambda>idx. if idx ! 1 = row \<and> idx ! 2 = col \<and> idx ! 3 = ch
              then val s kh kw C (idx ! 0) row col ch else item Z idx))"
  define g2 where "g2 = (\<lambda>row col. fold (g1 row col) [0..<och])"
  define g3 where "g3 = (\<lambda>row. fold (g2 row) [0..<Cc])"
  define I where "I = (\<lambda>Z :: real ndarray. shape Z = ?sh)"
  have step: "conv2d_forward_step padX W b s kh kw row col ch Z = Inr (g1 row col ch Z) \<and> I (g1 row col ch Z)"
    if "row < R" "col < Cc" "ch < och" "I Z" for row col ch Z
    using that padX W b rows cols unfolding g1_def val_def I_def
    by (simp add: conv2d_forward_step_eq[where B = B and R = R and Cc = Cc])
  have l1: "for_each [0..<och] (\<lambda>ch. conv2d_forward_step padX W b s kh kw row col ch) Z
              = Inr (g2 row col Z) \<and> I (g2 row col Z)"
    if "row < R" "col < Cc" "I Z" for row col Z
    unfolding g2_def using that by (intro for_each_fold[where I = I]) (simp_all add: step)
  have l2: "for_each [0..<Cc] (\<lambda>col. for_each [0..<och] (\<lambda>ch.
               conv2d_forward_step padX W b s kh kw row col ch)) Z
              = Inr (g3 row Z) \<and> I (g3 row Z)"
    if "row < R" "I Z" for row Z
    unfolding g3_def using that by (intro for_each_fold[where I = I]) (simp_all add: l1)
  have IZ0: "I Z0" using Z0 by (simp add: I_def)
  have l3: "for_each [0..<R] (\<lambda>row. for_each [0..<Cc] (\<lambda>col. for_each [0..<och] (\<lambda>ch.
               conv2d_forward_step padX W b s kh kw row col ch))) Z0
              = Inr (fold g3 [0..<R] Z0) \<and> I (fold g3 [0..<R] Z0)"
    using IZ0 by (intro for_each_fold[where I = I]) (simp_all add: l2)
  have items: "item (fold g3 [0..<R] Z0) [n, r, c, k] = val s kh kw C n r c k"
    if n: "n < B" and r: "r < R" and c: "c < Cc" and k: "k < och" for n r c k
  proof -
    let ?idx = "[n, r, c, k]"
    let ?v = "val s kh kw C n r c k"
    have a1: "I (g2 row col Z) \<and> item (g2 row col Z) ?idx
                = (if r = row \<and> c = col then ?v else item Z ?idx)" if "I Z" for row col Z
    proof -
      have "I (fold (g1 row col) [0..<och] Z) \<and> item (fold (g1 row col) [0..<och] Z) ?idx
              = (if \<exists>ch\<in>set [0..<och]. r = row \<and> c = col \<and> k = ch then ?v else item Z ?idx)"
        using that n r c k unfolding g1_def I_def by (intro fold_assign) auto
      then show ?thesis using k by (simp add: g2_def)
    qed
    have a2: "I (g3 row Z) \<and> item (g3 row Z) ?idx = (if r = row then ?v else item Z ?idx)"
      if "I Z" for row Z
    proof -
      have "I (fold (g2 row) [0..<Cc] Z) \<and> item (fold (g2 row) [0..<Cc] Z) ?idx
              = (if \<exists>col\<in>set [0..<Cc]. r = row \<and> c = col then ?v else item Z ?idx)"
        using that by (intro fold_assign[where I = I]) (simp_all add: a1)
      then show ?thesis using c by (simp add: g3_def)
    qed
    have "I (fold g3 [0..<R] Z0) \<and> item (fold g3 [0..<R] Z0) ?idx
              = (if \<exists>row\<in>set [0..<R]. r = row then ?v else item Z0 ?idx)"
      using IZ0 by (intro fold_assign[where I = I]) (simp_all add: a2)
    then show ?thesis using r by simp
  qed
  show ?thesis using l3 items by (auto simp: I_def)
qed

lemma unpack4_4 [simp]: "unpack4 [a, b, c, d] = Inr (a, b, c, d)"
  by (simp add: unpack4_def)

lemma lookup_map_of: "map_of d k = Some v \<Longrightarrow> lookup d k = Inr v"
  by (simp add: lookup_def)

lemma zero_pad_shape4:
  assumes "shape X = [B, H, W, C]"
  shows "zero_pad X p q
         = tabulate [B, H + 2 * p, W + 2 * q, C]
             (\<lambda>idx. if p \<le> idx ! 1 \<and> idx ! 1 < p + H \<and> q \<le> idx ! 2 \<and> idx ! 2 < q + W
                     then item X [idx ! 0, idx ! 1 - p, idx ! 2 - q, idx ! 3] else 0)"
  using assms by (simp add: zero_pad_def Let_def)

lemma np_pad4_nonneg:
  assumes "shape X = [B, H, W, C]"
  shows "np_pad4 X (int p) (int q)
         = Inr (tabulate [B, H + 2 * p, W + 2 * q, C]
             (\<lambda>idx. if p \<le> idx ! 1 \<and> idx ! 1 < p + H \<and> q \<le> idx ! 2 \<and> idx ! 2 < q + W
                     then item X [idx ! 0, idx ! 1 - p, idx ! 2 - q, idx ! 3] else 0))"
  using assms by (simp add: np_pad4_def zero_pad_shape4)

lemma np_empty_nonneg:
  "np_empty mem [int a, int b, int c, int d] = Inr (tabulate [a, b, c, d] mem)"
  by (simp add: np_empty_def)

lemma conv2d_forward_result:
  assumes init: "(if n_in L0 = None then conv2d_init_parameters L0 (shape X) else Inr L0) = Inr L"
    and W: "map_of (parameters L) ''W'' = Some W" "shape W = [kh, kw, C, och]"
    and b: "map_of (parameters L) ''b'' = Some bias" "shape bias = [1, och]"
    and X: "shape X = [B, H, Wd, C]"
    and pad: "pad L = PadPair (int ph) (int pw)"
    and sizes: "out_size H (int ph) kh (stride L) = Inr (int out_rows)"
               "out_size Wd (int pw) kw (stride L) = Inr (int out_cols)"
  shows "\<exists>padX Z.
      np_pad4 X (int ph) (int pw) = Inr padX
    \<and> shape padX = [B, H + 2 * ph, Wd + 2 * pw, C]
    \<and> (\<forall>n<B. \<forall>i<H + 2 * ph. \<forall>j<Wd + 2 * pw. \<forall>m<C.
          item padX [n, i, j, m]
          = (if ph \<le> i \<and> i < ph + H \<and> pw \<le> j \<and> j < pw + Wd
             then item X [n, i - ph, j - pw, m] else 0))
    \<and> conv2d_forward mem L0 X
        = Inr (act_call (activation L) Z,
               L\<lparr>cache := AList.update ''X'' (CArr X) (AList.update ''Z'' (CArr Z) (cache L))\<rparr>)
    \<and> map_of (AList.update ''X'' (CArr X) (AList.update ''Z'' (CArr Z) (cache L))) ''Z''
        = Some (CArr Z)
    \<and> map_of (AList.update ''X'' (CArr X) (AList.update ''Z'' (CArr Z) (cache L))) ''X''
        = Some (CArr X)
    \<and> shape Z = [B, out_rows, out_cols, och]
    \<and> (\<forall>n<B. \<forall>r<out_rows. \<forall>c<out_cols. \<forall>k<och.
          item Z [n, r, c, k]
          = (\<Sum>i<kh. \<Sum>j<kw. \<Sum>m<C.
               item padX [n, r * stride L + i, c * stride L + j, m] * item W [i, j, m, k])
            + item bias [0, k])"
proof -
  define padX where "padX = tabulate [B, H + 2 * ph, Wd + 2 * pw, C]
             (\<lambda>idx. if ph \<le> idx ! 1 \<and> idx ! 1 < ph + H \<and> pw \<le> idx ! 2 \<and> idx ! 2 < pw + Wd
                     then item X [idx ! 0, idx ! 1 - ph, idx ! 2 - pw, idx ! 3] else 0)"
  have pd: "np_pad4 X (int ph) (int pw) = Inr padX"
    using X by (simp add: np_pad4_nonneg padX_def)
  have psh: "shape padX = [B, H + 2 * ph, Wd + 2 * pw, C]" by (simp add: padX_def)
  have pit: "item padX [n, i, j, m]
          = (if ph \<le> i \<and> i < ph + H \<and> pw \<le> j \<and> j < pw + Wd
             then item X [n, i - ph, j - pw, m] else 0)"
    if "n < B" "i < H + 2 * ph" "j < Wd + 2 * pw" "m < C" for n i j m
    using that by (simp add: padX_def)
  have rows: "row * stride L + kh \<le> H + 2 * ph" if "row < out_rows" for row
    using out_size_window_fits[OF sizes(1), of row] that by simp
  have cols: "col * stride L + kw \<le> Wd + 2 * pw" if "col < out_cols" for col
    using out_size_window_fits[OF sizes(2), of col] that by simp
  obtain Z where
    loop: "for_each [0..<out_rows] (\<lambda>row. for_each [0..<out_cols] (\<lambda>col. for_each [0..<och] (\<lambda>ch.
             conv2d_forward_step padX W bias (stride L) kh kw row col ch)))
             (tabulate [B, out_rows, out_cols, och] mem) = Inr Z"
    and zsh: "shape Z = [B, out_rows, out_cols, och]"
    and zit: "\<forall>n<B. \<forall>r<out_rows. \<forall>c<out_cols. \<forall>k<och.
          item Z [n, r, c, k]
          = (\<Sum>i<kh. \<Sum>j<kw. \<Sum>m<C.
               item padX [n, r * stride L + i, c * stride L + j, m] * item W [i, j, m, k])
            + item bias [0, k]"
    using conv2d_forward_loops[OF psh W(2) b(2) _ rows cols,
        where ?Z0.0 = "tabulate [B, out_rows, out_cols, och] mem"]
    by auto
  have fw: "conv2d_forward mem L0 X
        = Inr (act_call (activation L) Z,
               L\<lparr>cache := AList.update ''X'' (CArr X) (AList.update ''Z'' (CArr Z) (cache L))\<rparr>)"
    unfolding conv2d_forward_def
    by (simp add: init lookup_map_of[OF W(1)] lookup_map_of[OF b(1)] W(2) X pad pad_pair_def
        sizes pd np_empty_nonneg loop)
  have cz: "map_of (AList.update ''X'' (CArr X) (AList.update ''Z'' (CArr Z) (cache L))) ''Z''
        = Some (CArr Z)"
    by (simp add: update_conv')
  have cx: "map_of (AList.update ''X'' (CArr X) (AList.update ''Z'' (CArr Z) (cache L))) ''X''
        = Some (CArr X)"
    by (simp add: update_conv')
  show ?thesis using pd psh pit fw cz cx zsh zit by blast
qed

lemma shape_np_zeros [simp]: "shape (np_zeros sh) = sh"
  by (simp add: np_zeros_def)

lemma for_each_Nil_upt [simp]: "for_each [0..<0] body s = Inr s"
  by simp

lemma prod_list_hd_dvd: "sh \<noteq> [] \<Longrightarrow> prod_list sh mod hd sh = (0::nat)"
  by (cases sh) simp_all

lemma prod_list_last_dvd: "sh \<noteq> [] \<Longrightarrow> prod_list sh mod last sh = (0::nat)"
proof -
  assume "sh \<noteq> []"
  then have "sh = butlast sh @ [last sh]" by simp
  then have "prod_list sh = prod_list (butlast sh) * last sh"
    by (metis prod_list.append prod_list.Cons prod_list.Nil mult.right_neutral)
  then show ?thesis by simp
qed

lemma flatten_forward_elems:
  assumes "flatten_forward L X = Inr (Y, L')"
  shows "elems Y = elems X
       \<and> L' = L\<lparr>cache := AList.update ''in_dims'' (CShape (shape X)) (cache L)\<rparr>
       \<and> well_shaped Y"
  using assms
  by (auto simp: flatten_forward_def Let_def reshape_rows_def reshape_cols_def np_reshape_def
      well_shaped_def and_then_def split: if_splits sum.splits)

lemma flatten_forward_returns:
  assumes "well_shaped X"
  shows "(\<exists>Y L'. flatten_forward L X = Inr (Y, L'))
         \<longleftrightarrow> (keep_dim L = KeepInt (- 1)
              \<or> shape X \<noteq> []
                \<and> (if keep_dim L = KeepStr ''first'' then hd (shape X) else last (shape X)) \<noteq> 0)"
  using assms prod_list_hd_dvd[of "shape X"] prod_list_last_dvd[of "shape X"]
  by (auto simp: flatten_forward_def Let_def reshape_rows_def reshape_cols_def np_reshape_def
      well_shaped_def and_then_def)

section \<open>Windows, flattened\<close>

lemma indices2: "indices [a, b] = map (\<lambda>t. [t div b, t mod b]) [0..<a * b]"
proof (rule nth_equalityI)
  show "length (indices [a, b]) = length (map (\<lambda>t. [t div b, t mod b]) [0..<a * b])"
    by (simp add: length_indices)
next
  fix t assume "t < length (indices [a, b])"
  then have t: "t < a * b" by (simp add: length_indices)
  then have b: "0 < b" by (cases b) simp_all
  have "t div b < a" using t b by (simp add: less_mult_imp_div_less mult.commute)
  then have ib: "in_bounds [a, b] [t div b, t mod b]" using b by simp
  have "offset [a, b] [t div b, t mod b] = t" by simp
  then have "indices [a, b] ! t = [t div b, t mod b]" using nth_indices[OF ib] by simp
  then show "indices [a, b] ! t = map (\<lambda>t. [t div b, t mod b]) [0..<a * b] ! t"
    using t by simp
qed

lemma window_cells_tabulate:
  assumes "n < B" and "m < C"
  shows "window_cells (tabulate [B, kh, kw, C] f) n m
         = map (\<lambda>t. f [n, t div kw, t mod kw, m]) [0..<kh * kw]"
proof -
  have "map (\<lambda>r. item (tabulate [B, kh, kw, C] f) [n, r ! 0, r ! 1, m]) (indices [kh, kw])
        = map (\<lambda>r. f [n, r ! 0, r ! 1, m]) (indices [kh, kw])"
    using assms by (intro map_cong refl) (auto simp: set_indices in_bounds_Cons)
  then show ?thesis by (simp add: window_cells_def indices2 comp_def)
qed

lemma sum_list_row_major:
  "sum_list (map (\<lambda>t. g (t div b) (t mod b)) [0..<a * b]) = (\<Sum>i<a. \<Sum>j<b. g i j)"
  for g :: "nat \<Rightarrow> nat \<Rightarrow> real"
proof -
  have "sum_list (map (\<lambda>q. g (q ! 0) (q ! 1)) (indices [a, b])) = (\<Sum>i<a. \<Sum>j<b. g i j)"
    by (simp add: sum_list_indices_Cons indices.simps(1))
  then show ?thesis by (simp add: indices2 comp_def)
qed

lemma max_list_Max: "xs \<noteq> [] \<Longrightarrow> max_list xs = Max (set xs)"
proof (cases xs)
  case Nil
  assume "xs \<noteq> []"
  then show ?thesis using Nil by simp
next
  case (Cons a list)
  have "Max (set (a # list)) = fold max list a" by (rule Max.set_eq_fold)
  then show ?thesis using Cons by simp
qed

section \<open>Pool2D forward\<close>

lemma reduce_window_tabulate:
  assumes "0 < kh" and "0 < kw"
  shows "reduce_axes_12 f (tabulate [B, kh, kw, C] g)
         = Inr (tabulate [B, C] (\<lambda>idx. pool_value f
                  (map (\<lambda>t. g [idx ! 0, t div kw, t mod kw, idx ! 1]) [0..<kh * kw])))"
proof -
  have "tabulate [B, C] (\<lambda>idx. pool_value f (window_cells (tabulate [B, kh, kw, C] g) (idx ! 0) (idx ! 1)))
      = tabulate [B, C] (\<lambda>idx. pool_value f
                  (map (\<lambda>t. g [idx ! 0, t div kw, t mod kw, idx ! 1]) [0..<kh * kw]))"
  proof (rule tabulate_cong)
    fix idx assume "in_bounds [B, C] idx"
    then obtain n m where idx: "idx = [n, m]" and b: "n < B" "m < C"
      by (auto simp: in_bounds_Cons)
    show "pool_value f (window_cells (tabulate [B, kh, kw, C] g) (idx ! 0) (idx ! 1))
        = pool_value f (map (\<lambda>t. g [idx ! 0, t div kw, t mod kw, idx ! 1]) [0..<kh * kw])"
      using b by (simp add: idx window_cells_tabulate)
  qed
  then show ?thesis using assms by (simp add: reduce_axes_12_def)
qed

lemma store_mat_tabulate:
  assumes "shape P = [B, R, Cc, C]" and "row < R" and "col < Cc"
  shows "store_mat P row col (tabulate [B, C] f)
         = Inr (tabulate [B, R, Cc, C]
             (\<lambda>idx. if idx ! 1 = row \<and> idx ! 2 = col then f [idx ! 0, idx ! 3] else item P idx))"
proof -
  have bc: "broadcastable_to [B, C] [B, C]" by (simp add: broadcastable_to_def pad_rank_def)
  have "tabulate [B, R, Cc, C]
          (\<lambda>idx. if idx ! 1 = row \<and> idx ! 2 = col
                  then bcast_item (tabulate [B, C] f) [idx ! 0, idx ! 3] else item P idx)
        = tabulate [B, R, Cc, C]
          (\<lambda>idx. if idx ! 1 = row \<and> idx ! 2 = col then f [idx ! 0, idx ! 3] else item P idx)"
  proof (rule tabulate_cong)
    fix idx assume "in_bounds [B, R, Cc, C] idx"
    then obtain n i j m where idx: "idx = [n, i, j, m]" and b: "n < B" "m < C"
      by (auto simp: in_bounds_Cons)
    show "(if idx ! 1 = row \<and> idx ! 2 = col
           then bcast_item (tabulate [B, C] f) [idx ! 0, idx ! 3] else item P idx)
          = (if idx ! 1 = row \<and> idx ! 2 = col then f [idx ! 0, idx ! 3] else item P idx)"
      using b by (simp add: idx bcast_item_def)
  qed
  then show ?thesis using assms bc by (simp add: store_mat_def)
qed

lemma pool2d_forward_step_eq:
  assumes "shape Xp = [B, Hp, Wp, C]" and "shape P = [B, R, Cc, C]" and "row < R" and "col < Cc"
    and "row * s + kh \<le> Hp" and "col * s + kw \<le> Wp" and "0 < kh" and "0 < kw"
  shows "pool2d_forward_step Xp (Some f) s kh kw row col P
         = Inr (tabulate [B, R, Cc, C]
             (\<lambda>idx. if idx ! 1 = row \<and> idx ! 2 = col
                     then pool_value f (map (\<lambda>t. item Xp [idx ! 0, row * s + t div kw,
                                                      col * s + t mod kw, idx ! 3]) [0..<kh * kw])
                     else item P idx))"
  using assms
  by (simp add: pool2d_forward_step_def window_fits reduce_window_tabulate store_mat_tabulate
      cong: if_cong)

lemma offset_nth_indices: "k < prod_list sh \<Longrightarrow> offset sh (indices sh ! k) = k"
proof (induction sh arbitrary: k)
  case Nil
  then show ?case by (simp add: indices.simps)
next
  case (Cons d ds)
  let ?P = "prod_list ds"
  have P: "0 < ?P" using Cons.prems by (cases "?P = 0") simp_all
  have i: "k div ?P < d" using Cons.prems P by (simp add: less_mult_imp_div_less)
  have r: "k mod ?P < ?P" using P by simp
  have "concat (map (\<lambda>i. map ((#) i) (indices ds)) [0..<d]) ! (k div ?P * ?P + k mod ?P)
        = map ((#) (k div ?P)) (indices ds) ! (k mod ?P)"
    by (rule nth_concat_upt) (simp_all add: length_indices i r)
  then have "indices (d # ds) ! k = (k div ?P) # (indices ds ! (k mod ?P))"
    using r by (simp add: indices.simps length_indices)
  then show ?case using Cons.IH[OF r] by simp
qed

lemma tabulate_item: "well_shaped A \<Longrightarrow> tabulate (shape A) (item A) = A"
proof -
  assume w: "well_shaped A"
  have "map (item A) (indices (shape A)) = elems A"
  proof (rule nth_equalityI)
    show "length (map (item A) (indices (shape A))) = length (elems A)"
      using w by (simp add: length_indices well_shaped_def)
  next
    fix k assume "k < length (map (item A) (indices (shape A)))"
    then have k: "k < prod_list (shape A)" by (simp add: length_indices)
    then show "map (item A) (indices (shape A)) ! k = elems A ! k"
      by (simp add: length_indices item_def offset_nth_indices)
  qed
  then show ?thesis by (simp add: tabulate_def)
qed

lemma tabulate_eqI:
  assumes "well_shaped A" and "shape A = sh" and "\<And>idx. in_bounds sh idx \<Longrightarrow> item A idx = f idx"
  shows "A = tabulate sh f"
proof -
  have "A = tabulate sh (item A)" using tabulate_item[OF assms(1)] assms(2) by simp
  also have "\<dots> = tabulate sh f" using assms(3) by (rule tabulate_cong)
  finally show ?thesis .
qed

lemma pool2d_forward_loops:
  fixes Xp :: "real ndarray"
  assumes Xp: "shape Xp = [B, Hp, Wp, C]" and P0: "shape P0 = [B, R, Cc, C]" "well_shaped P0"
    and rows: "\<And>row. row < R \<Longrightarrow> row * s + kh \<le> Hp"
    and cols: "\<And>col. col < Cc \<Longrightarrow> col * s + kw \<le> Wp"
    and k: "0 < kh" "0 < kw"
  shows "for_each [0..<R] (\<lambda>row. for_each [0..<Cc] (\<lambda>col.
               pool2d_forward_step Xp (Some f) s kh kw row col)) P0
         = Inr (tabulate [B, R, Cc, C]
             (\<lambda>idx. pool_value f (map (\<lambda>t. item Xp [idx ! 0, idx ! 1 * s + t div kw,
                                              idx ! 2 * s + t mod kw, idx ! 3]) [0..<kh * kw])))"
proof -
  let ?sh = "[B, R, Cc, C]"
  define val where "val = (\<lambda>n r c m. pool_value f (map (\<lambda>t. item Xp [n, r * s + t div kw,
                                              c * s + t mod kw, m]) [0..<kh * kw]))"
  define g1 where "g1 = (\<lambda>row col P. tabulate ?sh
      (\<lambda>idx. if idx ! 1 = row \<and> idx ! 2 = col then val (idx ! 0) row col (idx ! 3)
              else item P idx))"
  define g2 where "g2 = (\<lambda>row. fold (g1 row) [0..<Cc])"
  define I where "I = (\<lambda>Z :: real ndarray. shape Z = ?sh \<and> well_shaped Z)"
  have step: "pool2d_forward_step Xp (Some f) s kh kw row col P = Inr (g1 row col P) \<and> I (g1 row col P)"
    if "row < R" "col < Cc" "I P" for row col P
    using that Xp rows cols k unfolding g1_def val_def I_def
    by (simp add: pool2d_forward_step_eq[where B = B and R = R and Cc = Cc])
  have l1: "for_each [0..<Cc] (\<lambda>col. pool2d_forward_step Xp (Some f) s kh kw row col) P
              = Inr (g2 row P) \<and> I (g2 row P)"
    if "row < R" "I P" for row P
    unfolding g2_def using that by (intro for_each_fold[where I = I]) (simp_all add: step)
  have IP0: "I P0" using P0 by (simp add: I_def)
  have l2: "for_each [0..<R] (\<lambda>row. for_each [0..<Cc] (\<lambda>col.
               pool2d_forward_step Xp (Some f) s kh kw row col)) P0
              = Inr (fold g2 [0..<R] P0) \<and> I (fold g2 [0..<R] P0)"
    using IP0 by (intro for_each_fold[where I = I]) (simp_all add: l1)
  have items: "item (fold g2 [0..<R] P0) [n, r, c, m] = val n r c m"
    if n: "n < B" and r: "r < R" and c: "c < Cc" and m: "m < C" for n r c m
  proof -
    let ?idx = "[n, r, c, m]"
    let ?v = "val n r c m"
    have a1: "I (g2 row Z) \<and> item (g2 row Z) ?idx = (if r = row then ?v else item Z ?idx)"
      if "I Z" for row Z
    proof -
      have "I (fold (g1 row) [0..<Cc] Z) \<and> item (fold (g1 row) [0..<Cc] Z) ?idx
              = (if \<exists>col\<in>set [0..<Cc]. r = row \<and> c = col then ?v else item Z ?idx)"
        using that n r c m unfolding g1_def I_def by (intro fold_assign) auto
      then show ?thesis using c by (simp add: g2_def)
    qed
    have "I (fold g2 [0..<R] P0) \<and> item (fold g2 [0..<R] P0) ?idx
              = (if \<exists>row\<in>set [0..<R]. r = row then ?v else item P0 ?idx)"
      using IP0 by (intro fold_assign[where I = I]) (simp_all add: a1)
    then show ?thesis using r by simp
  qed
  have w: "well_shaped (fold g2 [0..<R] P0)" using l2 by (simp add: I_def)
  have "fold g2 [0..<R] P0 = tabulate ?sh (\<lambda>idx. val (idx ! 0) (idx ! 1) (idx ! 2) (idx ! 3))"
  proof (rule tabulate_eqI[OF w])
    show "shape (fold g2 [0..<R] P0) = ?sh" using l2 by (simp add: I_def)
  next
    fix idx assume "in_bounds ?sh idx"
    then obtain n r c m where idx: "idx = [n, r, c, m]" and b: "n < B" "r < R" "c < Cc" "m < C"
      by (auto simp: in_bounds_Cons)
    show "item (fold g2 [0..<R] P0) idx = val (idx ! 0) (idx ! 1) (idx ! 2) (idx ! 3)"
      using items[OF b] by (simp add: idx)
  qed
  then show ?thesis using l2 by (simp add: val_def)
qed

section \<open>Pool2D backward\<close>

lemma pick_row_col_tabulate:
  assumes "shape G = [B, R, Cc, C]" and "row < R" and "col < Cc"
  shows "pick_row_col G row col
         = Inr (tabulate [B, Suc 0, Suc 0, C] (\<lambda>idx. item G [idx ! 0, row, col, idx ! 3]))"
proof -
  have "window G row (row + 1) col (col + 1)
        = tabulate [B, 1, 1, C] (\<lambda>idx. item G [idx ! 0, row + idx ! 1, col + idx ! 2, idx ! 3])"
    using assms by (intro window_fits) auto
  also have "\<dots> = tabulate [B, Suc 0, Suc 0, C] (\<lambda>idx. item G [idx ! 0, row, col, idx ! 3])"
    unfolding One_nat_def by (rule tabulate_cong) (auto simp: in_bounds_Cons)
  finally show ?thesis using assms(1) by (simp add: pick_row_col_def)
qed

lemma div_scalar_tabulate:
  assumes "0 < n"
  shows "div_scalar (tabulate sh f) n = Inr (tabulate sh (\<lambda>idx. f idx / real n))"
proof -
  have "tabulate sh (\<lambda>idx. item (tabulate sh f) idx / real n) = tabulate sh (\<lambda>idx. f idx / real n)"
    by (rule tabulate_cong) simp
  then show ?thesis using assms by (simp add: div_scalar_def)
qed

lemma iadd_window_unit:
  assumes "shape A = [B, Hp, Wp, C]" and "r0 + kh \<le> Hp" and "c0 + kw \<le> Wp"
  shows "iadd_window A r0 (r0 + kh) c0 (c0 + kw) (tabulate [B, Suc 0, Suc 0, C] v)
         = Inr (tabulate [B, Hp, Wp, C]
             (\<lambda>idx. if r0 \<le> idx ! 1 \<and> idx ! 1 < r0 + kh \<and> c0 \<le> idx ! 2 \<and> idx ! 2 < c0 + kw
                     then item A idx + v [idx ! 0, 0, 0, idx ! 3] else item A idx))"
proof -
  have m: "min r0 Hp = r0" "min (r0 + kh) Hp = r0 + kh" "min c0 Wp = c0" "min (c0 + kw) Wp = c0 + kw"
    using assms by simp_all
  have bc: "broadcastable_to [B, kh, kw, C] [B, Suc 0, Suc 0, C]"
    by (simp add: broadcastable_to_def pad_rank_def)
  have "tabulate [B, Hp, Wp, C]
          (\<lambda>idx. if r0 \<le> idx ! 1 \<and> idx ! 1 < r0 + kh \<and> c0 \<le> idx ! 2 \<and> idx ! 2 < c0 + kw
                  then item A idx + bcast_item (tabulate [B, Suc 0, Suc 0, C] v)
                         [idx ! 0, idx ! 1 - r0, idx ! 2 - c0, idx ! 3]
                  else item A idx)
        = tabulate [B, Hp, Wp, C]
          (\<lambda>idx. if r0 \<le> idx ! 1 \<and> idx ! 1 < r0 + kh \<and> c0 \<le> idx ! 2 \<and> idx ! 2 < c0 + kw
                  then item A idx + v [idx ! 0, 0, 0, idx ! 3] else item A idx)"
  proof (rule tabulate_cong)
    fix idx assume "in_bounds [B, Hp, Wp, C] idx"
    then obtain n i j c where idx: "idx = [n, i, j, c]" and b: "n < B" "c < C"
      by (auto simp: in_bounds_Cons)
    show "(if r0 \<le> idx ! 1 \<and> idx ! 1 < r0 + kh \<and> c0 \<le> idx ! 2 \<and> idx ! 2 < c0 + kw
           then item A idx + bcast_item (tabulate [B, Suc 0, Suc 0, C] v)
                  [idx ! 0, idx ! 1 - r0, idx ! 2 - c0, idx ! 3]
           else item A idx)
        = (if r0 \<le> idx ! 1 \<and> idx ! 1 < r0 + kh \<and> c0 \<le> idx ! 2 \<and> idx ! 2 < c0 + kw
           then item A idx + v [idx ! 0, 0, 0, idx ! 3] else item A idx)"
      using b by (simp add: idx bcast_item_def)
  qed
  then show ?thesis using assms(1) bc
    by (simp add: iadd_window_def Let_def m del: min_less_iff_conj cong: if_cong)
qed

lemma iadd_window_full:
  assumes "shape A = [B, Hp, Wp, C]" and "r0 + kh \<le> Hp" and "c0 + kw \<le> Wp"
  shows "iadd_window A r0 (r0 + kh) c0 (c0 + kw) (tabulate [B, kh, kw, C] v)
         = Inr (tabulate [B, Hp, Wp, C]
             (\<lambda>idx. if r0 \<le> idx ! 1 \<and> idx ! 1 < r0 + kh \<and> c0 \<le> idx ! 2 \<and> idx ! 2 < c0 + kw
                     then item A idx + v [idx ! 0, idx ! 1 - r0, idx ! 2 - c0, idx ! 3]
                     else item A idx))"
proof -
  have m: "min r0 Hp = r0" "min (r0 + kh) Hp = r0 + kh" "min c0 Wp = c0" "min (c0 + kw) Wp = c0 + kw"
    using assms by simp_all
  have bc: "broadcastable_to [B, kh, kw, C] [B, kh, kw, C]"
    by (simp add: broadcastable_to_def pad_rank_def)
  have "tabulate [B, Hp, Wp, C]
          (\<lambda>idx. if r0 \<le> idx ! 1 \<and> idx ! 1 < r0 + kh \<and> c0 \<le> idx ! 2 \<and> idx ! 2 < c0 + kw
                  then item A idx + bcast_item (tabulate [B, kh, kw, C] v)
                         [idx ! 0, idx ! 1 - r0, idx ! 2 - c0, idx ! 3]
                  else item A idx)
        = tabulate [B, Hp, Wp, C]
          (\<lambda>idx. if r0 \<le> idx ! 1 \<and> idx ! 1 < r0 + kh \<and> c0 \<le> idx ! 2 \<and> idx ! 2 < c0 + kw
                  then item A idx + v [idx ! 0, idx ! 1 - r0, idx ! 2 - c0, idx ! 3]
                  else item A idx)"
  proof (rule tabulate_cong)
    fix idx assume "in_bounds [B, Hp, Wp, C] idx"
    then obtain n i j c where idx: "idx = [n, i, j, c]" and b: "n < B" "c < C"
      by (auto simp: in_bounds_Cons)
    have "bcast_item (tabulate [B, kh, kw, C] v) [n, i - r0, j - c0, c] = v [n, i - r0, j - c0, c]"
      if "r0 \<le> i" "i < r0 + kh" "c0 \<le> j" "j < c0 + kw"
    proof -
      have "i - r0 < kh" "j - c0 < kw" using that by simp_all
      then show ?thesis using b by (simp add: bcast_item_def)
    qed
    then show "(if r0 \<le> idx ! 1 \<and> idx ! 1 < r0 + kh \<and> c0 \<le> idx ! 2 \<and> idx ! 2 < c0 + kw
           then item A idx + bcast_item (tabulate [B, kh, kw, C] v)
                  [idx ! 0, idx ! 1 - r0, idx ! 2 - c0, idx ! 3]
           else item A idx)
        = (if r0 \<le> idx ! 1 \<and> idx ! 1 < r0 + kh \<and> c0 \<le> idx ! 2 \<and> idx ! 2 < c0 + kw
           then item A idx + v [idx ! 0, idx ! 1 - r0, idx ! 2 - c0, idx ! 3]
           else item A idx)"
      by (simp add: idx)
  qed
  then show ?thesis using assms(1) bc
    by (simp add: iadd_window_def Let_def m del: min_less_iff_conj cong: if_cong)
qed

lemma mul_mask_gradient:
  "np_mul (tabulate [B, kh, kw, C] f) (tabulate [B, Suc 0, Suc 0, C] g)
   = Inr (tabulate [B, kh, kw, C] (\<lambda>idx. f idx * g [idx ! 0, 0, 0, idx ! 3]))"
proof -
  have sh: "broadcast_shape [B, kh, kw, C] [B, Suc 0, Suc 0, C] = Inr [B, kh, kw, C]"
    by (simp add: broadcast_shape_def pad_rank_def Let_def)
  have "tabulate [B, kh, kw, C]
          (\<lambda>idx. bcast_item (tabulate [B, kh, kw, C] f) idx
                  * bcast_item (tabulate [B, Suc 0, Suc 0, C] g) idx)
        = tabulate [B, kh, kw, C] (\<lambda>idx. f idx * g [idx ! 0, 0, 0, idx ! 3])"
  proof (rule tabulate_cong)
    fix idx assume "in_bounds [B, kh, kw, C] idx"
    then obtain n i j m where idx: "idx = [n, i, j, m]" and b: "n < B" "i < kh" "j < kw" "m < C"
      by (auto simp: in_bounds_Cons)
    show "bcast_item (tabulate [B, kh, kw, C] f) idx * bcast_item (tabulate [B, Suc 0, Suc 0, C] g) idx
          = f idx * g [idx ! 0, 0, 0, idx ! 3]"
      using b by (simp add: idx bcast_item_def)
  qed
  then show ?thesis using sh by (simp add: np_mul_def np_binop_def)
qed

lemma row_major_less: "i < a \<Longrightarrow> j < b \<Longrightarrow> i * b + j < a * (b::nat)"
proof -
  assume i: "i < a" and j: "j < b"
  have "Suc i * b \<le> a * b" using i by (intro mult_le_mono1) simp
  then show ?thesis using j by simp
qed

lemma np_reshape_merge:
  "np_reshape (tabulate [B, kh, kw, C] f) [B, kh * kw, C]
   = Inr (tabulate [B, kh * kw, C] (\<lambda>idx. f [idx ! 0, idx ! 1 div kw, idx ! 1 mod kw, idx ! 2]))"
proof -
  let ?P = "tabulate [B, kh, kw, C] f"
  let ?xi = "\<lparr>shape = [B, kh * kw, C], elems = elems ?P\<rparr>"
  have len: "length (elems ?P) = B * (kh * (kw * C))"
    by (simp add: tabulate_def length_indices)
  have r: "np_reshape ?P [B, kh * kw, C] = Inr ?xi"
    by (simp add: np_reshape_def len mult.assoc)
  have "?xi = tabulate [B, kh * kw, C] (\<lambda>idx. f [idx ! 0, idx ! 1 div kw, idx ! 1 mod kw, idx ! 2])"
  proof (rule tabulate_eqI)
    show "well_shaped ?xi" by (simp add: well_shaped_def len mult.assoc)
    show "shape ?xi = [B, kh * kw, C]" by simp
  next
    fix idx assume "in_bounds [B, kh * kw, C] idx"
    then obtain n t m where idx: "idx = [n, t, m]" and b: "n < B" "t < kh * kw" "m < C"
      by (auto simp: in_bounds_Cons)
    have kw: "0 < kw" using b(2) by (cases kw) simp_all
    have d: "t div kw < kh" using b(2) kw by (simp add: less_mult_imp_div_less mult.commute)
    have off: "offset [B, kh * kw, C] [n, q * kw + r, m] = offset [B, kh, kw, C] [n, q, r, m]"
      for q r by (simp add: algebra_simps)
    have "item ?xi [n, t, m] = elems ?P ! offset [B, kh * kw, C] [n, t div kw * kw + t mod kw, m]"
      by (simp add: item_def)
    also have "\<dots> = elems ?P ! offset [B, kh, kw, C] [n, t div kw, t mod kw, m]"
      by (simp only: off)
    also have "\<dots> = item ?P [n, t div kw, t mod kw, m]"
      by (simp only: item_def shape_tabulate)
    also have "\<dots> = f [n, t div kw, t mod kw, m]" using b d kw by simp
    finally show "item ?xi idx = f [idx ! 0, idx ! 1 div kw, idx ! 1 mod kw, idx ! 2]"
      by (simp add: idx)
  qed
  then show ?thesis using r by simp
qed

lemma np_reshape_split:
  "np_reshape (tabulate [B, kh * kw, C] g) [B, kh, kw, C]
   = Inr (tabulate [B, kh, kw, C] (\<lambda>idx. g [idx ! 0, idx ! 1 * kw + idx ! 2, idx ! 3]))"
proof -
  let ?M = "tabulate [B, kh * kw, C] g"
  let ?m = "\<lparr>shape = [B, kh, kw, C], elems = elems ?M\<rparr>"
  have len: "length (elems ?M) = B * (kh * kw * C)"
    by (simp add: tabulate_def length_indices)
  have r: "np_reshape ?M [B, kh, kw, C] = Inr ?m"
    by (simp add: np_reshape_def len mult.assoc)
  have "?m = tabulate [B, kh, kw, C] (\<lambda>idx. g [idx ! 0, idx ! 1 * kw + idx ! 2, idx ! 3])"
  proof (rule tabulate_eqI)
    show "well_shaped ?m" by (simp add: well_shaped_def len mult.assoc)
    show "shape ?m = [B, kh, kw, C]" by simp
  next
    fix idx assume "in_bounds [B, kh, kw, C] idx"
    then obtain n i j c where idx: "idx = [n, i, j, c]" and b: "n < B" "i < kh" "j < kw" "c < C"
      by (auto simp: in_bounds_Cons)
    have t: "i * kw + j < kh * kw" using b by (intro row_major_less)
    have off: "offset [B, kh, kw, C] [n, i, j, c] = offset [B, kh * kw, C] [n, i * kw + j, c]"
      by (simp add: algebra_simps)
    have "item ?m [n, i, j, c] = elems ?M ! offset [B, kh, kw, C] [n, i, j, c]"
      by (simp only: item_def ndarray.select_convs)
    also have "\<dots> = elems ?M ! offset [B, kh * kw, C] [n, i * kw + j, c]"
      by (simp only: off)
    also have "\<dots> = item ?M [n, i * kw + j, c]"
      by (simp only: item_def shape_tabulate)
    also have "\<dots> = g [n, i * kw + j, c]" using b t by simp
    finally show "item ?m idx = g [idx ! 0, idx ! 1 * kw + idx ! 2, idx ! 3]"
      by (simp add: idx)
  qed
  then show ?thesis using r by simp
qed

lemma argmax_axis_1_tabulate:
  assumes "0 < T"
  shows "argmax_axis_1 (tabulate [B, T, C] g)
         = Inr (tabulate [B, C] (\<lambda>idx. argmax_list (map (\<lambda>t. g [idx ! 0, t, idx ! 1]) [0..<T])))"
proof -
  have "tabulate [B, C] (\<lambda>idx. argmax_list (map (\<lambda>t. item (tabulate [B, T, C] g) [idx ! 0, t, idx ! 1]) [0..<T]))
        = tabulate [B, C] (\<lambda>idx. argmax_list (map (\<lambda>t. g [idx ! 0, t, idx ! 1]) [0..<T]))"
  proof (rule tabulate_cong)
    fix idx assume "in_bounds [B, C] idx"
    then obtain n m where idx: "idx = [n, m]" and b: "n < B" "m < C"
      by (auto simp: in_bounds_Cons)
    have "map (\<lambda>t. item (tabulate [B, T, C] g) [n, t, m]) [0..<T] = map (\<lambda>t. g [n, t, m]) [0..<T]"
      using b by (intro map_cong refl) simp
    then show "argmax_list (map (\<lambda>t. item (tabulate [B, T, C] g) [idx ! 0, t, idx ! 1]) [0..<T])
               = argmax_list (map (\<lambda>t. g [idx ! 0, t, idx ! 1]) [0..<T])"
      by (simp only: idx nth_Cons_0 nth_Cons_Suc One_nat_def)
  qed
  then show ?thesis using assms by (simp add: argmax_axis_1_def)
qed

lemma one_hot_tabulate:
  "one_hot_axis_1 [B, T, C] (tabulate [B, C] a)
   = tabulate [B, T, C] (\<lambda>idx. if idx ! 1 = a [idx ! 0, idx ! 2] then 1 else 0)"
  unfolding one_hot_axis_1_def
  by (rule tabulate_cong) (auto simp: in_bounds_Cons)

lemma max_mask_tabulate:
  assumes "0 < kh" and "0 < kw"
  shows "max_mask (tabulate [B, kh, kw, C] f) kh kw
         = Inr (tabulate [B, kh, kw, C]
             (\<lambda>idx. if idx ! 1 * kw + idx ! 2
                        = argmax_list (map (\<lambda>t. f [idx ! 0, t div kw, t mod kw, idx ! 3]) [0..<kh * kw])
                     then 1 else 0))"
  using assms
  by (simp add: max_mask_def np_reshape_merge argmax_axis_1_tabulate one_hot_tabulate
      np_reshape_split cong: if_cong)

lemma pool2d_backward_step_average:
  assumes "shape dX = [B, Hp, Wp, C]" and "shape dLdY = [B, R, Cc, C]" and "row < R" and "col < Cc"
    and "row * s + kh \<le> Hp" and "col * s + kw \<le> Wp" and "0 < kh" and "0 < kw"
  shows "pool2d_backward_step Xp dLdY ''average'' s kh kw row col dX
         = Inr (tabulate [B, Hp, Wp, C]
             (\<lambda>idx. item dX idx
                  + (if row * s \<le> idx ! 1 \<and> idx ! 1 < row * s + kh
                        \<and> col * s \<le> idx ! 2 \<and> idx ! 2 < col * s + kw
                     then item dLdY [idx ! 0, row, col, idx ! 3] / real (kh * kw) else 0)))"
proof -
  have "tabulate [B, Hp, Wp, C]
          (\<lambda>idx. if row * s \<le> idx ! 1 \<and> idx ! 1 < row * s + kh
                        \<and> col * s \<le> idx ! 2 \<and> idx ! 2 < col * s + kw
                  then item dX idx + item dLdY [idx ! 0, row, col, idx ! 3] / real (kh * kw)
                  else item dX idx)
      = tabulate [B, Hp, Wp, C]
          (\<lambda>idx. item dX idx
                  + (if row * s \<le> idx ! 1 \<and> idx ! 1 < row * s + kh
                        \<and> col * s \<le> idx ! 2 \<and> idx ! 2 < col * s + kw
                     then item dLdY [idx ! 0, row, col, idx ! 3] / real (kh * kw) else 0))"
    by (rule tabulate_cong) simp
  then show ?thesis
    using assms
    by (simp add: pool2d_backward_step_def pick_row_col_tabulate div_scalar_tabulate
        iadd_window_unit cong: if_cong)
qed

lemma pool2d_backward_step_max:
  assumes "shape dX = [B, Hp, Wp, C]" and "shape dLdY = [B, R, Cc, C]" and "row < R" and "col < Cc"
    and "shape Xp = [B, Hp, Wp, C]"
    and "row * s + kh \<le> Hp" and "col * s + kw \<le> Wp" and "0 < kh" and "0 < kw"
  shows "pool2d_backward_step Xp dLdY ''max'' s kh kw row col dX
         = Inr (tabulate [B, Hp, Wp, C]
             (\<lambda>idx. item dX idx
                  + (if row * s \<le> idx ! 1 \<and> idx ! 1 < row * s + kh
                        \<and> col * s \<le> idx ! 2 \<and> idx ! 2 < col * s + kw
                        \<and> (idx ! 1 - row * s) * kw + (idx ! 2 - col * s)
                          = argmax_list (map (\<lambda>t. item Xp [idx ! 0, row * s + t div kw,
                                                      col * s + t mod kw, idx ! 3]) [0..<kh * kw])
                     then item dLdY [idx ! 0, row, col, idx ! 3] else 0)))"
proof -
  let ?am = "\<lambda>idx. argmax_list (map (\<lambda>t. item Xp [idx ! 0, row * s + t div kw,
                                                      col * s + t mod kw, idx ! 3]) [0..<kh * kw])"
  have "tabulate [B, Hp, Wp, C]
          (\<lambda>idx. if row * s \<le> idx ! 1 \<and> idx ! 1 < row * s + kh
                        \<and> col * s \<le> idx ! 2 \<and> idx ! 2 < col * s + kw
                  then item dX idx
                       + (if (idx ! 1 - row * s) * kw + (idx ! 2 - col * s) = ?am idx then 1 else 0)
                         * item dLdY [idx ! 0, row, col, idx ! 3]
                  else item dX idx)
      = tabulate [B, Hp, Wp, C]
          (\<lambda>idx. item dX idx
                  + (if row * s \<le> idx ! 1 \<and> idx ! 1 < row * s + kh
                        \<and> col * s \<le> idx ! 2 \<and> idx ! 2 < col * s + kw
                        \<and> (idx ! 1 - row * s) * kw + (idx ! 2 - col * s) = ?am idx
                     then item dLdY [idx ! 0, row, col, idx ! 3] else 0))"
    by (rule tabulate_cong) simp
  then show ?thesis
    using assms
    by (simp add: pool2d_backward_step_def window_fits max_mask_tabulate pick_row_col_tabulate
        mul_mask_gradient iadd_window_full cong: if_cong)
qed

lemma sum_list_upt_sum: "sum_list (map f [0..<n]) = (\<Sum>i<n. f i)" for f :: "nat \<Rightarrow> real"
  by (simp add: interv_sum_list_conv_sum_set_nat lessThan_atLeast0)

lemma accumulate_loops2:
  fixes c :: "nat \<Rightarrow> nat \<Rightarrow> nat list \<Rightarrow> real"
  assumes step: "\<And>row col A. row < R \<Longrightarrow> col < Cc \<Longrightarrow> shape A = sh \<Longrightarrow>
              body row col A = Inr (tabulate sh (\<lambda>idx. item A idx + c row col idx))"
    and A0: "shape A0 = sh" "well_shaped A0"
  shows "for_each [0..<R] (\<lambda>row. for_each [0..<Cc] (\<lambda>col. body row col)) A0
         = Inr (tabulate sh (\<lambda>idx. item A0 idx + (\<Sum>row<R. \<Sum>col<Cc. c row col idx)))"
proof -
  define g1 where "g1 = (\<lambda>row col A. tabulate sh (\<lambda>idx. item A idx + c row col idx))"
  define g2 where "g2 = (\<lambda>row. fold (g1 row) [0..<Cc])"
  define I where "I = (\<lambda>A :: real ndarray. shape A = sh \<and> well_shaped A)"
  have s1: "body row col A = Inr (g1 row col A) \<and> I (g1 row col A)"
    if "row < R" "col < Cc" "I A" for row col A
    using that step[of row col A] by (simp add: g1_def I_def)
  have l1: "for_each [0..<Cc] (\<lambda>col. body row col) A = Inr (g2 row A) \<and> I (g2 row A)"
    if "row < R" "I A" for row A
    unfolding g2_def using that by (intro for_each_fold[where I = I]) (simp_all add: s1)
  have IA0: "I A0" using A0 by (simp add: I_def)
  have l2: "for_each [0..<R] (\<lambda>row. for_each [0..<Cc] (\<lambda>col. body row col)) A0
              = Inr (fold g2 [0..<R] A0) \<and> I (fold g2 [0..<R] A0)"
    using IA0 by (intro for_each_fold[where I = I]) (simp_all add: l1)
  have items: "item (fold g2 [0..<R] A0) idx = item A0 idx + (\<Sum>row<R. \<Sum>col<Cc. c row col idx)"
    if ib: "in_bounds sh idx" for idx
  proof -
    have a1: "I (g2 row A) \<and> item (g2 row A) idx = item A idx + (\<Sum>col<Cc. c row col idx)"
      if "I A" for row A
    proof -
      have "I (fold (g1 row) [0..<Cc] A) \<and> item (fold (g1 row) [0..<Cc] A) idx
              = item A idx + sum_list (map (\<lambda>col. c row col idx) [0..<Cc])"
        using that ib unfolding g1_def I_def by (intro fold_accumulate) simp_all
      then show ?thesis by (simp add: g2_def sum_list_upt_sum)
    qed
    have "I (fold g2 [0..<R] A0) \<and> item (fold g2 [0..<R] A0) idx
              = item A0 idx + sum_list (map (\<lambda>row. \<Sum>col<Cc. c row col idx) [0..<R])"
      using IA0 by (intro fold_accumulate[where I = I]) (simp_all add: a1)
    then show ?thesis by (simp add: sum_list_upt_sum)
  qed
  have "fold g2 [0..<R] A0
        = tabulate sh (\<lambda>idx. item A0 idx + (\<Sum>row<R. \<Sum>col<Cc. c row col idx))"
    using l2 items by (intro tabulate_eqI) (simp_all add: I_def)
  then show ?thesis using l2 by simp
qed

lemma crop_tabulate:
  "window (tabulate [B, H + 2 * p, W + 2 * q, C] f) p (H + p) q (W + q)
   = tabulate [B, H, W, C] (\<lambda>idx. f [idx ! 0, p + idx ! 1, q + idx ! 2, idx ! 3])"
proof -
  have "window (tabulate [B, H + 2 * p, W + 2 * q, C] f) p (p + H) q (q + W)
        = tabulate [B, H, W, C]
            (\<lambda>idx. item (tabulate [B, H + 2 * p, W + 2 * q, C] f)
                      [idx ! 0, p + idx ! 1, q + idx ! 2, idx ! 3])"
    by (intro window_fits) (simp, linarith, linarith)
  also have "\<dots> = tabulate [B, H, W, C] (\<lambda>idx. f [idx ! 0, p + idx ! 1, q + idx ! 2, idx ! 3])"
    by (rule tabulate_cong) (auto simp: in_bounds_Cons)
  finally show ?thesis by (simp add: add.commute)
qed

lemma item_np_zeros [simp]: "in_bounds sh idx \<Longrightarrow> item (np_zeros sh) idx = 0"
  by (simp add: np_zeros_def)

lemma well_shaped_np_zeros [simp]: "well_shaped (np_zeros sh)"
  by (simp add: np_zeros_def)

lemma pool2d_forward_result:
  assumes ks: "kernel_shape L = (kh, kw)" "0 < kh" "0 < kw"
    and md: "select_pool_fn (mode L) = Some f"
    and pad: "pad L = PadPair (int ph) (int pw)"
    and X: "shape X = [B, H, Wd, C]"
    and sizes: "out_size H (int ph) kh (stride L) = Inr (int R)"
               "out_size Wd (int pw) kw (stride L) = Inr (int Cc)"
  shows "pool2d_forward L X
         = Inr (tabulate [B, R, Cc, C]
                 (\<lambda>idx. pool_value f
                    (map (\<lambda>t. item (zero_pad X ph pw)
                                 [idx ! 0, idx ! 1 * stride L + t div kw,
                                  idx ! 2 * stride L + t mod kw, idx ! 3]) [0..<kh * kw])),
                L\<lparr>cache := AList.update ''X'' (CArr X) (cache L)\<rparr>)"
proof -
  have psh: "shape (zero_pad X ph pw) = [B, H + 2 * ph, Wd + 2 * pw, C]"
    using X by (simp add: zero_pad_shape4)
  have rows: "row * stride L + kh \<le> H + 2 * ph" if "row < R" for row
    using out_size_window_fits[OF sizes(1), of row] that by simp
  have cols: "col * stride L + kw \<le> Wd + 2 * pw" if "col < Cc" for col
    using out_size_window_fits[OF sizes(2), of col] that by simp
  have loop: "for_each [0..<R] (\<lambda>row. for_each [0..<Cc] (\<lambda>col.
               pool2d_forward_step (zero_pad X ph pw) (Some f) (stride L) kh kw row col))
               (np_zeros [B, R, Cc, C])
         = Inr (tabulate [B, R, Cc, C]
             (\<lambda>idx. pool_value f (map (\<lambda>t. item (zero_pad X ph pw)
                 [idx ! 0, idx ! 1 * stride L + t div kw,
                  idx ! 2 * stride L + t mod kw, idx ! 3]) [0..<kh * kw])))"
    using psh rows cols ks(2,3) by (intro pool2d_forward_loops) simp_all
  show ?thesis
    unfolding pool2d_forward_def
    by (simp add: X pad pad_pair_def ks(1) sizes np_pad4_def np_zeros_dims_def md loop)
qed

lemma pool2d_backward_average_result:
  assumes ks: "kernel_shape L = (kh, kw)" "0 < kh" "0 < kw"
    and md: "mode L = ''average''"
    and pad: "pad L = PadPair (int ph) (int pw)"
    and cache: "map_of (cache L) ''out_rows'' = Some a" "map_of (cache L) ''out_cols'' = Some b"
               "map_of (cache L) ''X'' = Some (CArr X)"
    and X: "shape X = [B, H, Wd, C]"
    and sizes: "out_size H (int ph) kh (stride L) = Inr (int R)"
               "out_size Wd (int pw) kw (stride L) = Inr (int Cc)"
    and G: "shape dLdY = [B, R, Cc, C]"
  shows "pool2d_backward L dLdY
         = Inr (tabulate [B, H, Wd, C]
             (\<lambda>idx. \<Sum>row<R. \<Sum>col<Cc.
                if row * stride L \<le> ph + idx ! 1 \<and> ph + idx ! 1 < row * stride L + kh
                   \<and> col * stride L \<le> pw + idx ! 2 \<and> pw + idx ! 2 < col * stride L + kw
                then item dLdY [idx ! 0, row, col, idx ! 3] / real (kh * kw) else 0))"
proof -
  let ?sh = "[B, H + 2 * ph, Wd + 2 * pw, C]"
  let ?c = "\<lambda>row col idx.
                if row * stride L \<le> idx ! 1 \<and> idx ! 1 < row * stride L + kh
                   \<and> col * stride L \<le> idx ! 2 \<and> idx ! 2 < col * stride L + kw
                then item dLdY [idx ! 0, row, col, idx ! 3] / real (kh * kw) else 0"
  have psh: "shape (zero_pad X ph pw) = ?sh"
    using X by (simp add: zero_pad_shape4)
  have rows: "row * stride L + kh \<le> H + 2 * ph" if "row < R" for row
    using out_size_window_fits[OF sizes(1), of row] that by simp
  have cols: "col * stride L + kw \<le> Wd + 2 * pw" if "col < Cc" for col
    using out_size_window_fits[OF sizes(2), of col] that by simp
  have loop: "for_each [0..<R] (\<lambda>row. for_each [0..<Cc] (\<lambda>col.
               pool2d_backward_step (zero_pad X ph pw) dLdY ''average'' (stride L) kh kw row col))
               (np_zeros ?sh)
         = Inr (tabulate ?sh (\<lambda>idx. item (np_zeros ?sh) idx + (\<Sum>row<R. \<Sum>col<Cc. ?c row col idx)))"
    using G rows cols ks(2,3)
    by (intro accumulate_loops2)
      (simp_all add: pool2d_backward_step_average[where B = B and R = R and Cc = Cc])
  have z: "tabulate ?sh (\<lambda>idx. item (np_zeros ?sh) idx + (\<Sum>row<R. \<Sum>col<Cc. ?c row col idx))
           = tabulate ?sh (\<lambda>idx. \<Sum>row<R. \<Sum>col<Cc. ?c row col idx)"
    by (rule tabulate_cong) simp
  show ?thesis
    unfolding pool2d_backward_def
    by (simp add: lookup_map_of[OF cache(1)] lookup_map_of[OF cache(2)] lookup_map_of[OF cache(3)]
        as_array_def X pad pad_pair_def ks(1) sizes np_pad4_def np_zeros_like_def psh md
        loop[unfolded z] crop_tabulate cong: if_cong)
qed

lemma pool2d_backward_max_result:
  assumes ks: "kernel_shape L = (kh, kw)" "0 < kh" "0 < kw"
    and md: "mode L = ''max''"
    and pad: "pad L = PadPair (int ph) (int pw)"
    and cache: "map_of (cache L) ''out_rows'' = Some a" "map_of (cache L) ''out_cols'' = Some b"
               "map_of (cache L) ''X'' = Some (CArr X)"
    and X: "shape X = [B, H, Wd, C]"
    and sizes: "out_size H (int ph) kh (stride L) = Inr (int R)"
               "out_size Wd (int pw) kw (stride L) = Inr (int Cc)"
    and G: "shape dLdY = [B, R, Cc, C]"
  shows "pool2d_backward L dLdY
         = Inr (tabulate [B, H, Wd, C]
             (\<lambda>idx. \<Sum>row<R. \<Sum>col<Cc.
                if row * stride L \<le> ph + idx ! 1 \<and> ph + idx ! 1 < row * stride L + kh
                   \<and> col * stride L \<le> pw + idx ! 2 \<and> pw + idx ! 2 < col * stride L + kw
                   \<and> (ph + idx ! 1 - row * stride L) * kw + (pw + idx ! 2 - col * stride L)
                     = argmax_list (map (\<lambda>t. item (zero_pad X ph pw)
                          [idx ! 0, row * stride L + t div kw, col * stride L + t mod kw, idx ! 3])
                          [0..<kh * kw])
                then item dLdY [idx ! 0, row, col, idx ! 3] else 0))"
proof -
  let ?sh = "[B, H + 2 * ph, Wd + 2 * pw, C]"
  let ?c = "\<lambda>row col idx.
                if row * stride L \<le> idx ! 1 \<and> idx ! 1 < row * stride L + kh
                   \<and> col * stride L \<le> idx ! 2 \<and> idx ! 2 < col * stride L + kw
                   \<and> (idx ! 1 - row * stride L) * kw + (idx ! 2 - col * stride L)
                     = argmax_list (map (\<lambda>t. item (zero_pad X ph pw)
                          [idx ! 0, row * stride L + t div kw, col * stride L + t mod kw, idx ! 3])
                          [0..<kh * kw])
                then item dLdY [idx ! 0, row, col, idx ! 3] else 0"
  have psh: "shape (zero_pad X ph pw) = ?sh"
    using X by (simp add: zero_pad_shape4)
  have rows: "row * stride L + kh \<le> H + 2 * ph" if "row < R" for row
    using out_size_window_fits[OF sizes(1), of row] that by simp
  have cols: "col * stride L + kw \<le> Wd + 2 * pw" if "col < Cc" for col
    using out_size_window_fits[OF sizes(2), of col] that by simp
  have loop: "for_each [0..<R] (\<lambda>row. for_each [0..<Cc] (\<lambda>col.
               pool2d_backward_step (zero_pad X ph pw) dLdY ''max'' (stride L) kh kw row col))
               (np_zeros ?sh)
         = Inr (tabulate ?sh (\<lambda>idx. item (np_zeros ?sh) idx + (\<Sum>row<R. \<Sum>col<Cc. ?c row col idx)))"
    using G rows cols ks(2,3) psh
    by (intro accumulate_loops2)
      (simp_all add: pool2d_backward_step_max[where B = B and R = R and Cc = Cc])
  have z: "tabulate ?sh (\<lambda>idx. item (np_zeros ?sh) idx + (\<Sum>row<R. \<Sum>col<Cc. ?c row col idx))
           = tabulate ?sh (\<lambda>idx. \<Sum>row<R. \<Sum>col<Cc. ?c row col idx)"
    by (rule tabulate_cong) simp
  show ?thesis
    unfolding pool2d_backward_def
    by (simp add: lookup_map_of[OF cache(1)] lookup_map_of[OF cache(2)] lookup_map_of[OF cache(3)]
        as_array_def X pad pad_pair_def ks(1) sizes np_pad4_def np_zeros_like_def psh md
        loop[unfolded z] crop_tabulate cong: if_cong)
qed

section \<open>argmax: the first occurrence of the maximum\<close>

lemma argmax_scan_first_max:
  assumes "best < length ys" and "\<forall>k<length ys. ys ! k \<le> ys ! best"
    and "\<forall>k<best. ys ! k < ys ! best"
  shows "argmax_scan xs (length ys) best (ys ! best) < length (ys @ xs)
       \<and> (\<forall>k<length (ys @ xs). (ys @ xs) ! k \<le> (ys @ xs) ! argmax_scan xs (length ys) best (ys ! best))
       \<and> (\<forall>k<argmax_scan xs (length ys) best (ys ! best).
             (ys @ xs) ! k < (ys @ xs) ! argmax_scan xs (length ys) best (ys ! best))"
  using assms
proof (induction xs arbitrary: ys best)
  case Nil
  then show ?case by simp
next
  case (Cons x xs)
  let ?ys = "ys @ [x]"
  show ?case
  proof (cases "ys ! best < x")
    case True
    have b: "length ys < length ?ys" by simp
    have v: "?ys ! length ys = x" by simp
    have le: "\<forall>k<length ?ys. ?ys ! k \<le> ?ys ! length ys"
    proof (intro allI impI)
      fix k assume "k < length ?ys"
      then consider "k < length ys" | "k = length ys" by fastforce
      then show "?ys ! k \<le> ?ys ! length ys"
      proof cases
        case 1
        then have "ys ! k \<le> ys ! best" using Cons.prems(2) by simp
        then show ?thesis using True 1 by (simp add: nth_append)
      next
        case 2
        then show ?thesis by simp
      qed
    qed
    have lt: "\<forall>k<length ys. ?ys ! k < ?ys ! length ys"
    proof (intro allI impI)
      fix k assume k: "k < length ys"
      then have "ys ! k \<le> ys ! best" using Cons.prems(2) by simp
      then show "?ys ! k < ?ys ! length ys" using True k by (simp add: nth_append)
    qed
    have "argmax_scan xs (length ?ys) (length ys) (?ys ! length ys) < length (?ys @ xs)
       \<and> (\<forall>k<length (?ys @ xs). (?ys @ xs) ! k
              \<le> (?ys @ xs) ! argmax_scan xs (length ?ys) (length ys) (?ys ! length ys))
       \<and> (\<forall>k<argmax_scan xs (length ?ys) (length ys) (?ys ! length ys).
             (?ys @ xs) ! k < (?ys @ xs) ! argmax_scan xs (length ?ys) (length ys) (?ys ! length ys))"
      using b le lt by (rule Cons.IH)
    then show ?thesis using True by simp
  next
    case False
    have b: "best < length ?ys" using Cons.prems(1) by simp
    have v: "?ys ! best = ys ! best" using Cons.prems(1) by (simp add: nth_append)
    have le: "\<forall>k<length ?ys. ?ys ! k \<le> ?ys ! best"
    proof (intro allI impI)
      fix k assume "k < length ?ys"
      then consider "k < length ys" | "k = length ys" by fastforce
      then show "?ys ! k \<le> ?ys ! best"
      proof cases
        case 1
        then show ?thesis using Cons.prems(2) v by (simp add: nth_append)
      next
        case 2
        then show ?thesis using False v by simp
      qed
    qed
    have lt: "\<forall>k<best. ?ys ! k < ?ys ! best"
      using Cons.prems(1,3) v by (simp add: nth_append)
    have "argmax_scan xs (length ?ys) best (?ys ! best) < length (?ys @ xs)
       \<and> (\<forall>k<length (?ys @ xs). (?ys @ xs) ! k
              \<le> (?ys @ xs) ! argmax_scan xs (length ?ys) best (?ys ! best))
       \<and> (\<forall>k<argmax_scan xs (length ?ys) best (?ys ! best).
             (?ys @ xs) ! k < (?ys @ xs) ! argmax_scan xs (length ?ys) best (?ys ! best))"
      using b le lt by (rule Cons.IH)
    then show ?thesis using False v by simp
  qed
qed

lemma argmax_list_first_max:
  assumes "xs \<noteq> []"
  shows "argmax_list xs < length xs
       \<and> (\<forall>k<length xs. xs ! k \<le> xs ! argmax_list xs)
       \<and> (\<forall>k<argmax_list xs. xs ! k < xs ! argmax_list xs)"
proof -
  obtain x xs' where xs: "xs = x # xs'" using assms by (cases xs) simp_all
  have "argmax_scan xs' (length [x]) 0 ([x] ! 0) < length ([x] @ xs')
       \<and> (\<forall>k<length ([x] @ xs'). ([x] @ xs') ! k \<le> ([x] @ xs') ! argmax_scan xs' (length [x]) 0 ([x] ! 0))
       \<and> (\<forall>k<argmax_scan xs' (length [x]) 0 ([x] ! 0).
             ([x] @ xs') ! k < ([x] @ xs') ! argmax_scan xs' (length [x]) 0 ([x] ! 0))"
    by (rule argmax_scan_first_max) simp_all
  then show ?thesis by (simp add: xs argmax_list_def)
qed

lemma argmax_list_Max:
  assumes "xs \<noteq> []"
  shows "xs ! argmax_list xs = Max (set xs)"
proof -
  note a = argmax_list_first_max[OF assms]
  have "xs ! argmax_list xs \<in> set xs" using a by simp
  moreover have "\<forall>y\<in>set xs. y \<le> xs ! argmax_list xs"
    using a by (auto simp: in_set_conv_nth)
  ultimately show ?thesis by (intro Max_eqI[symmetric]) simp_all
qed

lemma item_zero_pad:
  assumes "shape X = [B, H, W, C]" and "n < B" and "i < H + 2 * p" and "j < W + 2 * q" and "m < C"
  shows "item (zero_pad X p q) [n, i, j, m]
         = (if p \<le> i \<and> i < p + H \<and> q \<le> j \<and> j < q + W then item X [n, i - p, j - q, m] else 0)"
  using assms by (simp add: zero_pad_shape4)

lemma pool_max_example:
  "pool2d_forward
     \<lparr>n_in = None, parameters = [],
      cache = [(''out_rows'', CList []), (''out_cols'', CList []), (''X_pad'', CList []),
               (''p'', CList []), (''pool_shape'', CList [])],
      gradients = [],
      kernel_shape = (2, 2), stride = 1, pad = PadPair 0 0, mode = ''max''\<rparr>
     \<lparr>shape = [1, 2, 2, 1], elems = [1, 3, 2, 0]\<rparr>
   = Inr (\<lparr>shape = [1, 1, 1, 1], elems = [3]\<rparr>,
     \<lparr>n_in = None, parameters = [],
      cache = [(''out_rows'', CList []), (''out_cols'', CList []), (''X_pad'', CList []),
               (''p'', CList []), (''pool_shape'', CList []),
               (''X'', CArr \<lparr>shape = [1, 2, 2, 1], elems = [1, 3, 2, 0]\<rparr>)],
      gradients = [],
      kernel_shape = (2, 2), stride = 1, pad = PadPair 0 0, mode = ''max''\<rparr>)"
  "pool2d_backward
     \<lparr>n_in = None, parameters = [],
      cache = [(''out_rows'', CList []), (''out_cols'', CList []), (''X_pad'', CList []),
               (''p'', CList []), (''pool_shape'', CList []),
               (''X'', CArr \<lparr>shape = [1, 2, 2, 1], elems = [1, 3, 2, 0]\<rparr>)],
      gradients = [],
      kernel_shape = (2, 2), stride = 1, pad = PadPair 0 0, mode = ''max''\<rparr>
     \<lparr>shape = [1, 1, 1, 1], elems = [5]\<rparr>
   = Inr \<lparr>shape = [1, 2, 2, 1], elems = [0, 5, 0, 0]\<rparr>"
  by code_simp+

lemma padded_window_values:
  assumes ks: "0 < kh" "0 < kw"
    and X: "shape X = [B, H, Wd, C]"
    and fits: "r0 + kh \<le> H + 2 * ph" "c0 + kw \<le> Wd + 2 * pw"
    and pos: "n < B" "m < C"
    and neg: "\<forall>i<kh. \<forall>j<kw. ph \<le> r0 + i \<and> r0 + i < ph + H \<and> pw \<le> c0 + j \<and> c0 + j < pw + Wd
                \<longrightarrow> item X [n, r0 + i - ph, c0 + j - pw, m] < 0"
    and padded: "\<exists>i<kh. \<exists>j<kw. \<not> (ph \<le> r0 + i \<and> r0 + i < ph + H \<and> pw \<le> c0 + j \<and> c0 + j < pw + Wd)"
  defines "xs \<equiv> map (\<lambda>t. item (zero_pad X ph pw) [n, r0 + t div kw, c0 + t mod kw, m]) [0..<kh * kw]"
  shows "Max (set xs) = 0"
    and "\<not> (ph \<le> r0 + argmax_list xs div kw \<and> r0 + argmax_list xs div kw < ph + H
          \<and> pw \<le> c0 + argmax_list xs mod kw \<and> c0 + argmax_list xs mod kw < pw + Wd)"
    and "argmax_list xs < kh * kw"
proof -
  have len: "length xs = kh * kw" by (simp add: xs_def)
  have ne: "xs \<noteq> []" using ks len by auto
  have dm: "t div kw < kh \<and> t mod kw < kw" if "t < kh * kw" for t
    using that ks by (simp add: less_mult_imp_div_less mult.commute)
  have val: "xs ! t = (if ph \<le> r0 + t div kw \<and> r0 + t div kw < ph + H
                         \<and> pw \<le> c0 + t mod kw \<and> c0 + t mod kw < pw + Wd
                       then item X [n, r0 + t div kw - ph, c0 + t mod kw - pw, m] else 0)"
    if "t < kh * kw" for t
  proof -
    have "r0 + t div kw < H + 2 * ph" "c0 + t mod kw < Wd + 2 * pw"
      using dm[OF that] fits by linarith+
    then show ?thesis
      using that item_zero_pad[OF X pos(1) _ _ pos(2), of "r0 + t div kw" ph "c0 + t mod kw" pw]
      by (simp add: xs_def)
  qed
  have le0: "xs ! t \<le> 0" if "t < kh * kw" for t
    using val[OF that] neg dm[OF that] by (auto simp: less_imp_le)
  have lt0: "xs ! t < 0" if "t < kh * kw"
    "ph \<le> r0 + t div kw \<and> r0 + t div kw < ph + H \<and> pw \<le> c0 + t mod kw \<and> c0 + t mod kw < pw + Wd" for t
    using val[OF that(1)] neg dm[OF that(1)] that(2) by auto
  obtain i0 j0 where ij: "i0 < kh" "j0 < kw"
    "\<not> (ph \<le> r0 + i0 \<and> r0 + i0 < ph + H \<and> pw \<le> c0 + j0 \<and> c0 + j0 < pw + Wd)"
    using padded by blast
  have t0: "i0 * kw + j0 < kh * kw"
  proof -
    have "i0 * kw + j0 < i0 * kw + kw" using ij(2) by simp
    also have "\<dots> = Suc i0 * kw" by simp
    also have "\<dots> \<le> kh * kw" using ij(1) by (intro mult_le_mono1) simp
    finally show ?thesis .
  qed
  have "xs ! (i0 * kw + j0) = 0"
    using val[OF t0] ij by simp
  then have in0: "0 \<in> set xs" using t0 len by (metis nth_mem)
  have all: "\<forall>y\<in>set xs. y \<le> 0" using le0 len by (auto simp: in_set_conv_nth)
  show mx: "Max (set xs) = 0" using in0 all by (intro Max_eqI) simp_all
  have a: "argmax_list xs < kh * kw" using argmax_list_first_max[OF ne] len by simp
  show "argmax_list xs < kh * kw" by (rule a)
  have "xs ! argmax_list xs = 0" using argmax_list_Max[OF ne] mx by simp
  then show "\<not> (ph \<le> r0 + argmax_list xs div kw \<and> r0 + argmax_list xs div kw < ph + H
          \<and> pw \<le> c0 + argmax_list xs mod kw \<and> c0 + argmax_list xs mod kw < pw + Wd)"
    using lt0[OF a] by auto
qed

section \<open>Conv2D backward\<close>

lemma pick_channel_tabulate:
  assumes "shape dZ = [B, R, Cc, och]" and "row < R" and "col < Cc" and "ch < och"
  shows "pick_channel dZ row col ch
         = Inr (tabulate [B, Suc 0, Suc 0, Suc 0] (\<lambda>idx. item dZ [idx ! 0, row, col, ch]))"
proof -
  have "tabulate [B, Suc 0, Suc 0, Suc 0] (\<lambda>idx. item dZ [idx ! 0, row + idx ! 1, col + idx ! 2, ch])
        = tabulate [B, Suc 0, Suc 0, Suc 0] (\<lambda>idx. item dZ [idx ! 0, row, col, ch])"
    by (rule tabulate_cong) (auto simp: in_bounds_Cons)
  then show ?thesis
    using assms by (simp add: pick_channel_def Let_def min_def)
qed

lemma new_axis_0_tabulate:
  "new_axis_0 (tabulate sh f) = tabulate (Suc 0 # sh) (\<lambda>idx. f (tl idx))"
  by (simp add: new_axis_0_def tabulate_def indices.simps comp_def)

lemma mul_kernel_gradient:
  "np_mul (tabulate [Suc 0, kh, kw, C] f) (tabulate [B, Suc 0, Suc 0, Suc 0] g)
   = Inr (tabulate [B, kh, kw, C] (\<lambda>idx. f [0, idx ! 1, idx ! 2, idx ! 3] * g [idx ! 0, 0, 0, 0]))"
proof -
  have sh: "broadcast_shape [Suc 0, kh, kw, C] [B, Suc 0, Suc 0, Suc 0] = Inr [B, kh, kw, C]"
    by (simp add: broadcast_shape_def pad_rank_def Let_def)
  have "tabulate [B, kh, kw, C]
          (\<lambda>idx. bcast_item (tabulate [Suc 0, kh, kw, C] f) idx
                  * bcast_item (tabulate [B, Suc 0, Suc 0, Suc 0] g) idx)
        = tabulate [B, kh, kw, C] (\<lambda>idx. f [0, idx ! 1, idx ! 2, idx ! 3] * g [idx ! 0, 0, 0, 0])"
  proof (rule tabulate_cong)
    fix idx assume "in_bounds [B, kh, kw, C] idx"
    then obtain n i j m where idx: "idx = [n, i, j, m]" and b: "n < B" "i < kh" "j < kw" "m < C"
      by (auto simp: in_bounds_Cons)
    show "bcast_item (tabulate [Suc 0, kh, kw, C] f) idx
            * bcast_item (tabulate [B, Suc 0, Suc 0, Suc 0] g) idx
          = f [0, idx ! 1, idx ! 2, idx ! 3] * g [idx ! 0, 0, 0, 0]"
      using b by (simp add: idx bcast_item_def)
  qed
  then show ?thesis using sh by (simp add: np_mul_def np_binop_def)
qed

lemma mul_window_gradient:
  "np_mul (tabulate [B, kh, kw, C] f) (tabulate [B, Suc 0, Suc 0, Suc 0] g)
   = Inr (tabulate [B, kh, kw, C] (\<lambda>idx. f idx * g [idx ! 0, 0, 0, 0]))"
proof -
  have sh: "broadcast_shape [B, kh, kw, C] [B, Suc 0, Suc 0, Suc 0] = Inr [B, kh, kw, C]"
    by (simp add: broadcast_shape_def pad_rank_def Let_def)
  have "tabulate [B, kh, kw, C]
          (\<lambda>idx. bcast_item (tabulate [B, kh, kw, C] f) idx
                  * bcast_item (tabulate [B, Suc 0, Suc 0, Suc 0] g) idx)
        = tabulate [B, kh, kw, C] (\<lambda>idx. f idx * g [idx ! 0, 0, 0, 0])"
  proof (rule tabulate_cong)
    fix idx assume "in_bounds [B, kh, kw, C] idx"
    then obtain n i j m where idx: "idx = [n, i, j, m]" and b: "n < B" "i < kh" "j < kw" "m < C"
      by (auto simp: in_bounds_Cons)
    show "bcast_item (tabulate [B, kh, kw, C] f) idx
            * bcast_item (tabulate [B, Suc 0, Suc 0, Suc 0] g) idx
          = f idx * g [idx ! 0, 0, 0, 0]"
      using b by (simp add: idx bcast_item_def)
  qed
  then show ?thesis using sh by (simp add: np_mul_def np_binop_def)
qed

lemma sum_axis_0_tabulate:
  "sum_axis_0 (tabulate [B, kh, kw, C] q)
   = Inr (tabulate [kh, kw, C] (\<lambda>idx. \<Sum>n<B. q (n # idx)))"
proof -
  have "tabulate [kh, kw, C]
          (\<lambda>idx. sum_list (map (\<lambda>b. item (tabulate [B, kh, kw, C] q) (b # idx)) [0..<B]))
        = tabulate [kh, kw, C] (\<lambda>idx. \<Sum>n<B. q (n # idx))"
  proof (rule tabulate_cong)
    fix idx assume ib: "in_bounds [kh, kw, C] idx"
    have "sum_list (map (\<lambda>b. item (tabulate [B, kh, kw, C] q) (b # idx)) [0..<B])
          = sum_list (map (\<lambda>b. q (b # idx)) [0..<B])"
      using ib by (intro arg_cong[where f = sum_list] map_cong refl) simp
    then show "sum_list (map (\<lambda>b. item (tabulate [B, kh, kw, C] q) (b # idx)) [0..<B])
          = (\<Sum>n<B. q (n # idx))"
      by (simp add: sum_list_upt_sum)
  qed
  then show ?thesis by (simp add: sum_axis_0_def)
qed

lemma iadd_last_axis_tabulate:
  assumes "shape D = [kh, kw, C, och]" and "ch < och"
  shows "iadd_last_axis D ch (tabulate [kh, kw, C] v)
         = Inr (tabulate [kh, kw, C, och]
             (\<lambda>idx. item D idx + (if idx ! 3 = ch then v [idx ! 0, idx ! 1, idx ! 2] else 0)))"
proof -
  have bc: "broadcastable_to [kh, kw, C] [kh, kw, C]"
    by (simp add: broadcastable_to_def pad_rank_def)
  have "tabulate [kh, kw, C, och]
          (\<lambda>idx. if idx ! 3 = ch then item D idx + bcast_item (tabulate [kh, kw, C] v) (butlast idx)
                  else item D idx)
        = tabulate [kh, kw, C, och]
          (\<lambda>idx. item D idx + (if idx ! 3 = ch then v [idx ! 0, idx ! 1, idx ! 2] else 0))"
  proof (rule tabulate_cong)
    fix idx assume "in_bounds [kh, kw, C, och] idx"
    then obtain i j m k where idx: "idx = [i, j, m, k]" and b: "i < kh" "j < kw" "m < C"
      by (auto simp: in_bounds_Cons)
    show "(if idx ! 3 = ch then item D idx + bcast_item (tabulate [kh, kw, C] v) (butlast idx)
           else item D idx)
          = item D idx + (if idx ! 3 = ch then v [idx ! 0, idx ! 1, idx ! 2] else 0)"
      using b by (simp add: idx bcast_item_def)
  qed
  then show ?thesis using assms bc by (simp add: iadd_last_axis_def)
qed

lemma conv2d_backward_step_eq:
  assumes "shape A = [B, Hp, Wp, C]" and "shape D = [kh, kw, C, och]"
    and "shape W = [kh, kw, C, och]" and "shape Xp = [B, Hp, Wp, C]"
    and "shape dZ = [B, R, Cc, och]" and "row < R" and "col < Cc" and "ch < och"
    and "row * s + kh \<le> Hp" and "col * s + kw \<le> Wp"
  shows "conv2d_backward_step Xp W dZ s kh kw row col ch (A, D)
         = Inr (tabulate [B, Hp, Wp, C]
                  (\<lambda>idx. item A idx
                     + (if row * s \<le> idx ! 1 \<and> idx ! 1 < row * s + kh
                           \<and> col * s \<le> idx ! 2 \<and> idx ! 2 < col * s + kw
                        then item W [idx ! 1 - row * s, idx ! 2 - col * s, idx ! 3, ch]
                             * item dZ [idx ! 0, row, col, ch]
                        else 0)),
                tabulate [kh, kw, C, och]
                  (\<lambda>idx. item D idx
                     + (if idx ! 3 = ch
                        then \<Sum>n<B. item Xp [n, row * s + idx ! 0, col * s + idx ! 1, idx ! 2]
                                     * item dZ [n, row, col, ch]
                        else 0)))"
proof -
  have e: "tabulate [B, Hp, Wp, C]
          (\<lambda>idx. if row * s \<le> idx ! 1 \<and> idx ! 1 < row * s + kh
                        \<and> col * s \<le> idx ! 2 \<and> idx ! 2 < col * s + kw
                  then item A idx
                       + item W [idx ! 1 - row * s, idx ! 2 - col * s, idx ! 3, ch]
                         * item dZ [idx ! 0, row, col, ch]
                  else item A idx)
      = tabulate [B, Hp, Wp, C]
                  (\<lambda>idx. item A idx
                     + (if row * s \<le> idx ! 1 \<and> idx ! 1 < row * s + kh
                           \<and> col * s \<le> idx ! 2 \<and> idx ! 2 < col * s + kw
                        then item W [idx ! 1 - row * s, idx ! 2 - col * s, idx ! 3, ch]
                             * item dZ [idx ! 0, row, col, ch]
                        else 0))"
    by (rule tabulate_cong) simp
  show ?thesis
    using assms e
    by (simp add: conv2d_backward_step_def last_axis_kernel
        pick_channel_tabulate[where B = B and R = R and Cc = Cc and och = och]
        new_axis_0_tabulate mul_kernel_gradient iadd_window_full window_fits
        mul_window_gradient sum_axis_0_tabulate iadd_last_axis_tabulate cong: if_cong)
qed

lemma accumulate_loops3:
  fixes c d :: "nat \<Rightarrow> nat \<Rightarrow> nat \<Rightarrow> nat list \<Rightarrow> real"
  assumes step: "\<And>row col ch A D. row < R \<Longrightarrow> col < Cc \<Longrightarrow> ch < N \<Longrightarrow>
              shape A = sa \<Longrightarrow> shape D = sd \<Longrightarrow>
              body row col ch (A, D)
              = Inr (tabulate sa (\<lambda>idx. item A idx + c row col ch idx),
                     tabulate sd (\<lambda>idx. item D idx + d row col ch idx))"
    and A0: "shape A0 = sa" "well_shaped A0" and D0: "shape D0 = sd" "well_shaped D0"
  shows "for_each [0..<R] (\<lambda>row. for_each [0..<Cc] (\<lambda>col. for_each [0..<N] (\<lambda>ch.
           body row col ch))) (A0, D0)
         = Inr (tabulate sa (\<lambda>idx. item A0 idx + (\<Sum>row<R. \<Sum>col<Cc. \<Sum>ch<N. c row col ch idx)),
                tabulate sd (\<lambda>idx. item D0 idx + (\<Sum>row<R. \<Sum>col<Cc. \<Sum>ch<N. d row col ch idx)))"
proof -
  define g1 where "g1 = (\<lambda>row col ch (st :: real ndarray \<times> real ndarray).
      (tabulate sa (\<lambda>idx. item (fst st) idx + c row col ch idx),
       tabulate sd (\<lambda>idx. item (snd st) idx + d row col ch idx)))"
  define g2 where "g2 = (\<lambda>row col. fold (g1 row col) [0..<N])"
  define g3 where "g3 = (\<lambda>row. fold (g2 row) [0..<Cc])"
  define I where "I = (\<lambda>st :: real ndarray \<times> real ndarray.
      shape (fst st) = sa \<and> well_shaped (fst st) \<and> shape (snd st) = sd \<and> well_shaped (snd st))"
  have s1: "body row col ch st = Inr (g1 row col ch st) \<and> I (g1 row col ch st)"
    if "row < R" "col < Cc" "ch < N" "I st" for row col ch st
    using that step[of row col ch "fst st" "snd st"] by (simp add: g1_def I_def)
  have l1: "for_each [0..<N] (\<lambda>ch. body row col ch) st = Inr (g2 row col st) \<and> I (g2 row col st)"
    if "row < R" "col < Cc" "I st" for row col st
    unfolding g2_def using that by (intro for_each_fold[where I = I]) (simp_all add: s1)
  have l2: "for_each [0..<Cc] (\<lambda>col. for_each [0..<N] (\<lambda>ch. body row col ch)) st
            = Inr (g3 row st) \<and> I (g3 row st)"
    if "row < R" "I st" for row st
    unfolding g3_def using that by (intro for_each_fold[where I = I]) (simp_all add: l1)
  have I0: "I (A0, D0)" using A0 D0 by (simp add: I_def)
  let ?res = "fold g3 [0..<R] (A0, D0)"
  have l3: "for_each [0..<R] (\<lambda>row. for_each [0..<Cc] (\<lambda>col. for_each [0..<N] (\<lambda>ch.
              body row col ch))) (A0, D0) = Inr ?res \<and> I ?res"
    using I0 by (intro for_each_fold[where I = I]) (simp_all add: l2)
  have itemsA: "item (fst ?res) idx
       = item A0 idx + (\<Sum>row<R. \<Sum>col<Cc. \<Sum>ch<N. c row col ch idx)"
    if ib: "in_bounds sa idx" for idx
  proof -
    have a1: "I (g2 row col st) \<and> item (fst (g2 row col st)) idx
                = item (fst st) idx + (\<Sum>ch<N. c row col ch idx)"
      if "I st" for row col st
    proof -
      have "I (fold (g1 row col) [0..<N] st) \<and> item (fst (fold (g1 row col) [0..<N] st)) idx
              = item (fst st) idx + sum_list (map (\<lambda>ch. c row col ch idx) [0..<N])"
        using that ib unfolding g1_def I_def by (intro fold_accumulate) simp_all
      then show ?thesis by (simp add: g2_def sum_list_upt_sum)
    qed
    have a2: "I (g3 row st) \<and> item (fst (g3 row st)) idx
                = item (fst st) idx + (\<Sum>col<Cc. \<Sum>ch<N. c row col ch idx)"
      if "I st" for row st
    proof -
      have "I (fold (g2 row) [0..<Cc] st) \<and> item (fst (fold (g2 row) [0..<Cc] st)) idx
              = item (fst st) idx + sum_list (map (\<lambda>col. \<Sum>ch<N. c row col ch idx) [0..<Cc])"
        using that by (intro fold_accumulate[where I = I]) (simp_all add: a1)
      then show ?thesis by (simp add: g3_def sum_list_upt_sum)
    qed
    have "I ?res \<and> item (fst ?res) idx
              = item (fst (A0, D0)) idx
                + sum_list (map (\<lambda>row. \<Sum>col<Cc. \<Sum>ch<N. c row col ch idx) [0..<R])"
      using I0 by (intro fold_accumulate[where I = I]) (simp_all add: a2)
    then show ?thesis by (simp add: sum_list_upt_sum)
  qed
  have itemsD: "item (snd ?res) idx
       = item D0 idx + (\<Sum>row<R. \<Sum>col<Cc. \<Sum>ch<N. d row col ch idx)"
    if ib: "in_bounds sd idx" for idx
  proof -
    have a1: "I (g2 row col st) \<and> item (snd (g2 row col st)) idx
                = item (snd st) idx + (\<Sum>ch<N. d row col ch idx)"
      if "I st" for row col st
    proof -
      have "I (fold (g1 row col) [0..<N] st) \<and> item (snd (fold (g1 row col) [0..<N] st)) idx
              = item (snd st) idx + sum_list (map (\<lambda>ch. d row col ch idx) [0..<N])"
        using that ib unfolding g1_def I_def by (intro fold_accumulate) simp_all
      then show ?thesis by (simp add: g2_def sum_list_upt_sum)
    qed
    have a2: "I (g3 row st) \<and> item (snd (g3 row st)) idx
                = item (snd st) idx + (\<Sum>col<Cc. \<Sum>ch<N. d row col ch idx)"
      if "I st" for row st
    proof -
      have "I (fold (g2 row) [0..<Cc] st) \<and> item (snd (fold (g2 row) [0..<Cc] st)) idx
              = item (snd st) idx + sum_list (map (\<lambda>col. \<Sum>ch<N. d row col ch idx) [0..<Cc])"
        using that by (intro fold_accumulate[where I = I]) (simp_all add: a1)
      then show ?thesis by (simp add: g3_def sum_list_upt_sum)
    qed
    have "I ?res \<and> item (snd ?res) idx
              = item (snd (A0, D0)) idx
                + sum_list (map (\<lambda>row. \<Sum>col<Cc. \<Sum>ch<N. d row col ch idx) [0..<R])"
      using I0 by (intro fold_accumulate[where I = I]) (simp_all add: a2)
    then show ?thesis by (simp add: sum_list_upt_sum)
  qed
  have rA: "fst ?res
        = tabulate sa (\<lambda>idx. item A0 idx + (\<Sum>row<R. \<Sum>col<Cc. \<Sum>ch<N. c row col ch idx))"
    using l3 itemsA by (intro tabulate_eqI) (simp_all add: I_def)
  have rD: "snd ?res
        = tabulate sd (\<lambda>idx. item D0 idx + (\<Sum>row<R. \<Sum>col<Cc. \<Sum>ch<N. d row col ch idx))"
    using l3 itemsD by (intro tabulate_eqI) (simp_all add: I_def)
  have "?res = (fst ?res, snd ?res)" by simp
  then show ?thesis using l3 rA rD by metis
qed

lemma sum_axes_012_row_tabulate:
  assumes "shape dZ = [B, R, Cc, och]"
  shows "sum_axes_012_row dZ
         = Inr (tabulate [1, och] (\<lambda>idx. \<Sum>n<B. \<Sum>row<R. \<Sum>col<Cc. item dZ [n, row, col, idx ! 1]))"
  using assms by (simp add: sum_axes_012_row_def sum_list_indices3)

lemma conv2d_backward_result:
  assumes W: "map_of (parameters L) ''W'' = Some W" "shape W = [kh, kw, C, och]"
    and b: "map_of (parameters L) ''b'' = Some bias"
    and cache: "map_of (cache L) ''X'' = Some (CArr X)" "map_of (cache L) ''Z'' = Some (CArr Z)"
    and X: "shape X = [B, H, Wd, C]"
    and pad: "pad L = PadPair (int ph) (int pw)"
    and sizes: "out_size H (int ph) kh (stride L) = Inr (int R)"
               "out_size Wd (int pw) kw (stride L) = Inr (int Cc)"
    and dZ: "dZ = act_backward (activation L) Z dLdY" "shape dZ = [B, R, Cc, och]"
  shows "conv2d_backward L dLdY
         = Inr (tabulate [B, H, Wd, C]
                  (\<lambda>idx. \<Sum>row<R. \<Sum>col<Cc. \<Sum>ch<och.
                     if row * stride L \<le> ph + idx ! 1 \<and> ph + idx ! 1 < row * stride L + kh
                        \<and> col * stride L \<le> pw + idx ! 2 \<and> pw + idx ! 2 < col * stride L + kw
                     then item W [ph + idx ! 1 - row * stride L, pw + idx ! 2 - col * stride L,
                                  idx ! 3, ch]
                          * item dZ [idx ! 0, row, col, ch]
                     else 0),
                L\<lparr>gradients :=
                    AList.update ''b''
                      (tabulate [1, och]
                         (\<lambda>idx. \<Sum>n<B. \<Sum>row<R. \<Sum>col<Cc. item dZ [n, row, col, idx ! 1]))
                      (AList.update ''W''
                         (tabulate [kh, kw, C, och]
                            (\<lambda>idx. \<Sum>row<R. \<Sum>col<Cc. \<Sum>n<B.
                               item (zero_pad X ph pw)
                                 [n, row * stride L + idx ! 0, col * stride L + idx ! 1, idx ! 2]
                               * item dZ [n, row, col, idx ! 3]))
                         (gradients L))\<rparr>)"
proof -
  let ?sh = "[B, H + 2 * ph, Wd + 2 * pw, C]"
  let ?c = "\<lambda>row col ch idx.
               if row * stride L \<le> idx ! 1 \<and> idx ! 1 < row * stride L + kh
                  \<and> col * stride L \<le> idx ! 2 \<and> idx ! 2 < col * stride L + kw
               then item W [idx ! 1 - row * stride L, idx ! 2 - col * stride L, idx ! 3, ch]
                    * item dZ [idx ! 0, row, col, ch]
               else 0"
  let ?d = "\<lambda>row col ch idx.
               if idx ! 3 = ch
               then \<Sum>n<B. item (zero_pad X ph pw)
                              [n, row * stride L + idx ! 0, col * stride L + idx ! 1, idx ! 2]
                            * item dZ [n, row, col, ch]
               else 0"
  have psh: "shape (zero_pad X ph pw) = ?sh"
    using X by (simp add: zero_pad_shape4)
  have rows: "row * stride L + kh \<le> H + 2 * ph" if "row < R" for row
    using out_size_window_fits[OF sizes(1), of row] that by simp
  have cols: "col * stride L + kw \<le> Wd + 2 * pw" if "col < Cc" for col
    using out_size_window_fits[OF sizes(2), of col] that by simp
  have loop: "for_each [0..<R] (\<lambda>row. for_each [0..<Cc] (\<lambda>col. for_each [0..<och] (\<lambda>ch.
               conv2d_backward_step (zero_pad X ph pw) W dZ (stride L) kh kw row col ch)))
               (np_zeros ?sh, np_zeros [kh, kw, C, och])
         = Inr (tabulate ?sh (\<lambda>idx. item (np_zeros ?sh) idx
                   + (\<Sum>row<R. \<Sum>col<Cc. \<Sum>ch<och. ?c row col ch idx)),
                tabulate [kh, kw, C, och] (\<lambda>idx. item (np_zeros [kh, kw, C, och]) idx
                   + (\<Sum>row<R. \<Sum>col<Cc. \<Sum>ch<och. ?d row col ch idx)))"
    using W(2) dZ(2) rows cols psh
    by (intro accumulate_loops3)
      (simp_all add: conv2d_backward_step_eq[where B = B and R = R and Cc = Cc and och = och])
  have zA: "tabulate ?sh (\<lambda>idx. item (np_zeros ?sh) idx
                   + (\<Sum>row<R. \<Sum>col<Cc. \<Sum>ch<och. ?c row col ch idx))
           = tabulate ?sh (\<lambda>idx. \<Sum>row<R. \<Sum>col<Cc. \<Sum>ch<och. ?c row col ch idx)"
    by (rule tabulate_cong) simp
  have pick: "(\<Sum>ch<och. if k = ch then f ch else 0) = f k" if "k < och" for k and f :: "nat \<Rightarrow> real"
    using that by (simp add: sum.delta)
  have zD: "tabulate [kh, kw, C, och] (\<lambda>idx. item (np_zeros [kh, kw, C, och]) idx
                   + (\<Sum>row<R. \<Sum>col<Cc. \<Sum>ch<och. ?d row col ch idx))
           = tabulate [kh, kw, C, och]
                            (\<lambda>idx. \<Sum>row<R. \<Sum>col<Cc. \<Sum>n<B.
                               item (zero_pad X ph pw)
                                 [n, row * stride L + idx ! 0, col * stride L + idx ! 1, idx ! 2]
                               * item dZ [n, row, col, idx ! 3])"
  proof (rule tabulate_cong)
    fix idx assume ib: "in_bounds [kh, kw, C, och] idx"
    then have k: "idx ! 3 < och" by (auto simp: in_bounds_Cons)
    show "item (np_zeros [kh, kw, C, och]) idx
                   + (\<Sum>row<R. \<Sum>col<Cc. \<Sum>ch<och. ?d row col ch idx)
          = (\<Sum>row<R. \<Sum>col<Cc. \<Sum>n<B.
                               item (zero_pad X ph pw)
                                 [n, row * stride L + idx ! 0, col * stride L + idx ! 1, idx ! 2]
                               * item dZ [n, row, col, idx ! 3])"
      using ib
      by (simp add: pick[OF k, of "\<lambda>ch. \<Sum>n<B. item (zero_pad X ph pw)
                              [n, row * stride L + idx ! 0, col * stride L + idx ! 1, idx ! 2]
                            * item dZ [n, row, col, ch]" for row col])
  qed
  show ?thesis
    unfolding conv2d_backward_def
    by (simp add: lookup_map_of[OF W(1)] lookup_map_of[OF b] lookup_map_of[OF cache(1)]
        lookup_map_of[OF cache(2)] as_array_def X W(2) pad pad_pair_def sizes np_pad4_def
        np_zeros_like_def psh dZ(1)[symmetric] sum_axes_012_row_tabulate[OF dZ(2)]
        loop[unfolded zA zD] crop_tabulate Let_def cong: if_cong)
qed

section \<open>Claims\<close>

subsection \<open>Layer: clearing the gradients\<close>

text \<open>
  Claim C9.  \<^verbatim>\<open>clear_gradients\<close> keeps the parameters (and every attribute other than
  the cache and the gradients), keeps the keys of the cache in their order and maps each to
  the empty list, and keeps the keys of the gradients in their order and replaces each
  gradient by an array of the same shape whose elements are all zero.
\<close>

theorem clear_gradients_frame:
  "parameters (clear_gradients L) = parameters L
   \<and> n_in (clear_gradients L) = n_in L
   \<and> layer.more (clear_gradients L) = layer.more L
   \<and> list_all2 (\<lambda>(k, v) (k', v'). k' = k \<and> v' = CList []) (cache L) (cache (clear_gradients L))
   \<and> list_all2 (\<lambda>(k, g) (k', g'). k' = k \<and> shape g' = shape g
                   \<and> elems g' = replicate (prod_list (shape g)) 0)
        (gradients L) (gradients (clear_gradients L))"
proof -
  have c: "list_all2 (\<lambda>(k, v) (k', v'). k' = k \<and> v' = CList []) (cache L)
             (map (\<lambda>(a, b). (a, CList [])) (cache L))"
    by (simp add: list_all2_map2 list_all2_same case_prod_unfold)
  have g: "list_all2 (\<lambda>(k, g) (k', g'). k' = k \<and> shape g' = shape g
                   \<and> elems g' = replicate (prod_list (shape g)) 0) (gradients L)
             (map (\<lambda>(a, b). (a, np_zeros_like b)) (gradients L))"
    by (simp add: list_all2_map2 list_all2_same case_prod_unfold np_zeros_like_def
        elems_np_zeros)
  show ?thesis using c g by (simp add: clear_gradients_def)
qed

subsection \<open>The layer factory\<close>

text \<open>
  Claim C7.  For a name other than the four layer names \<^verbatim>\<open>initialize_layer\<close> raises
  and returns no layer.  The exception that reaches the caller is a \<^verbatim>\<open>NameError\<close>:
  the \<^verbatim>\<open>raise\<close> statement names \<^verbatim>\<open>NotimplementedError\<close>, which is not defined.
\<close>

theorem initialize_layer_unknown_name:
  assumes "name \<notin> {''fully_connected'', ''conv2d'', ''pool2d'', ''flatten''}"
  shows "initialize_layer caps name c = Inl (NameError ''name NotimplementedError is not defined'')"
  using assms by (simp add: initialize_layer_def)

theorem initialize_layer_unknown_name_witness:
  "''dropout'' \<notin> {''fully_connected'', ''conv2d'', ''pool2d'', ''flatten''}
   \<and> initialize_layer
        \<lparr>initialize_activation = (\<lambda>_. Inl (Unmodelled ''no activation'')),
         initialize_weights = (\<lambda>_ _. Inl (Unmodelled ''no initialiser''))\<rparr>
        ''dropout''
        \<lparr>cfg_activation = None, cfg_weight_init = None, cfg_n_out = None,
         cfg_kernel_shape = None, cfg_stride = None, cfg_pad = PadOther, cfg_mode = None,
         cfg_keep_dim = KeepStr ''first''\<rparr>
       = Inl (NameError ''name NotimplementedError is not defined'')"
  using initialize_layer_unknown_name[of "''dropout''"] by simp

subsection \<open>Conv2D: the forward pass\<close>

text \<open>
  Claim C1.  Let the layer, after its lazy initialisation, hold a kernel \<open>W\<close> of shape
  \<open>[kh, kw, C, och]\<close>, a bias of shape \<open>[1, och]\<close> and the resolved pad \<open>(ph, pw)\<close>, and let
  \<open>X\<close> have shape \<open>[B, H, Wd, C]\<close>, with output extents that are not negative.  Then
  \<^verbatim>\<open>forward\<close> returns: the padded input is \<open>X\<close> framed by zeros; at every example, output
  row, output column and output channel the pre-activation \<open>Z\<close> is the sum, over the
  \<open>kh \<times> kw \<times> C\<close> window whose corner moves by the stride, of padded input times kernel slice,
  plus the bias of the channel; the value returned is the activation of \<open>Z\<close>; and the cache
  holds \<open>Z\<close> and the unpadded \<open>X\<close>.
\<close>

theorem conv2d_forward_computes:
  assumes init: "(if n_in L0 = None then conv2d_init_parameters L0 (shape X) else Inr L0) = Inr L"
    and W: "map_of (parameters L) ''W'' = Some W" "shape W = [kh, kw, C, och]"
    and b: "map_of (parameters L) ''b'' = Some bias" "shape bias = [1, och]"
    and X: "shape X = [B, H, Wd, C]"
    and pad: "pad L = PadPair (int ph) (int pw)"
    and sizes: "out_size H (int ph) kh (stride L) = Inr (int out_rows)"
               "out_size Wd (int pw) kw (stride L) = Inr (int out_cols)"
  shows "\<exists>padX Z.
      np_pad4 X (int ph) (int pw) = Inr padX
    \<and> shape padX = [B, H + 2 * ph, Wd + 2 * pw, C]
    \<and> (\<forall>n<B. \<forall>i<H + 2 * ph. \<forall>j<Wd + 2 * pw. \<forall>m<C.
          item padX [n, i, j, m]
          = (if ph \<le> i \<and> i < ph + H \<and> pw \<le> j \<and> j < pw + Wd
             then item X [n, i - ph, j - pw, m] else 0))
    \<and> conv2d_forward mem L0 X
        = Inr (act_call (activation L) Z,
               L\<lparr>cache := AList.update ''X'' (CArr X) (AList.update ''Z'' (CArr Z) (cache L))\<rparr>)
    \<and> map_of (AList.update ''X'' (CArr X) (AList.update ''Z'' (CArr Z) (cache L))) ''Z''
        = Some (CArr Z)
    \<and> map_of (AList.update ''X'' (CArr X) (AList.update ''Z'' (CArr Z) (cache L))) ''X''
        = Some (CArr X)
    \<and> shape Z = [B, out_rows, out_cols, och]
    \<and> (\<forall>n<B. \<forall>r<out_rows. \<forall>c<out_cols. \<forall>k<och.
          item Z [n, r, c, k]
          = (\<Sum>i<kh. \<Sum>j<kw. \<Sum>m<C.
               item padX [n, r * stride L + i, c * stride L + j, m] * item W [i, j, m, k])
            + item bias [0, k])"
  using assms by (rule conv2d_forward_result)

lemma sum_lessThan_2: "(\<Sum>i<2. f i) = f 0 + f (1::nat)" for f :: "nat \<Rightarrow> real"
  by (simp add: numeral_2_eq_2)

theorem conv2d_forward_computes_witness:
  "\<exists>padX Z.
     np_pad4 \<lparr>shape = [1, 3, 3, 1], elems = [1, 2, 3, 4, 5, 6, 7, 8, 9]\<rparr> 0 0 = Inr padX
   \<and> conv2d_forward (\<lambda>_. 77)
        \<lparr>n_in = None, parameters = [], cache = [], gradients = [],
         kernel_shape = (2, 2), stride = 1, pad = PadStr ''valid'',
         n_out = 1, activation = \<lparr>act_call = (\<lambda>Z. Z), act_backward = (\<lambda>Z d. d)\<rparr>,
         init_weights = (\<lambda>sh. \<lparr>shape = [2, 2, 1, 1], elems = [1, 3, 2, 4]\<rparr>)\<rparr>
        \<lparr>shape = [1, 3, 3, 1], elems = [1, 2, 3, 4, 5, 6, 7, 8, 9]\<rparr>
      = Inr (Z,
        \<lparr>n_in = Some 1,
         parameters = [(''W'', \<lparr>shape = [2, 2, 1, 1], elems = [1, 3, 2, 4]\<rparr>),
                       (''b'', np_zeros [1, 1])],
         cache = [(''Z'', CArr Z),
                  (''X'', CArr \<lparr>shape = [1, 3, 3, 1], elems = [1, 2, 3, 4, 5, 6, 7, 8, 9]\<rparr>)],
         gradients = [(''W'', np_zeros_like \<lparr>shape = [2, 2, 1, 1], elems = [1, 3, 2, 4]\<rparr>),
                      (''b'', np_zeros_like (np_zeros [1, 1]))],
         kernel_shape = (2, 2), stride = 1, pad = PadPair 0 0,
         n_out = 1, activation = \<lparr>act_call = (\<lambda>Z. Z), act_backward = (\<lambda>Z d. d)\<rparr>,
         init_weights = (\<lambda>sh. \<lparr>shape = [2, 2, 1, 1], elems = [1, 3, 2, 4]\<rparr>)\<rparr>)
   \<and> shape Z = [1, 2, 2, 1]
   \<and> item Z [0, 1, 1, 0] = 75"
proof -
  let ?X = "\<lparr>shape = [1, 3, 3, 1], elems = [1, 2, 3, 4, 5, 6, 7, 8, 9 :: real]\<rparr>"
  let ?W = "\<lparr>shape = [2, 2, 1, 1], elems = [1, 3, 2, 4 :: real]\<rparr>"
  let ?Lnew = "\<lparr>n_in = None, parameters = [], cache = [], gradients = [],
         kernel_shape = (2, 2), stride = 1, pad = PadStr ''valid'',
         n_out = 1, activation = \<lparr>act_call = (\<lambda>Z. Z), act_backward = (\<lambda>Z d. d)\<rparr>,
         init_weights = (\<lambda>sh. ?W)\<rparr>"
  let ?L = "\<lparr>n_in = Some 1,
         parameters = [(''W'', ?W), (''b'', np_zeros [1, 1])],
         cache = [(''Z'', CList []), (''X'', CList [])],
         gradients = [(''W'', np_zeros_like ?W), (''b'', np_zeros_like (np_zeros [1, 1]))],
         kernel_shape = (2, 2), stride = 1, pad = PadPair 0 0,
         n_out = 1, activation = \<lparr>act_call = (\<lambda>Z. Z), act_backward = (\<lambda>Z d. d)\<rparr>,
         init_weights = (\<lambda>sh. ?W)\<rparr>"
  have init: "(if n_in ?Lnew = None then conv2d_init_parameters ?Lnew (shape ?X) else Inr ?Lnew) = Inr ?L"
    by (simp add: conv2d_init_parameters_def resolve_pad_def Let_def)
  have sz: "out_size 3 (int 0) 2 (stride ?L) = Inr (int 2)"
    by (simp add: out_size_def py_int_def)
  obtain padX Z where
    pd: "np_pad4 ?X (int 0) (int 0) = Inr padX"
    and pit: "\<forall>n<1. \<forall>i<3 + 2 * 0. \<forall>j<3 + 2 * 0. \<forall>m<1.
          item padX [n, i, j, m]
          = (if 0 \<le> i \<and> i < 0 + 3 \<and> 0 \<le> j \<and> j < 0 + 3
             then item ?X [n, i - 0, j - 0, m] else 0)"
    and fw: "conv2d_forward (\<lambda>_. 77) ?Lnew ?X
        = Inr (act_call (activation ?L) Z,
               ?L\<lparr>cache := AList.update ''X'' (CArr ?X) (AList.update ''Z'' (CArr Z) (cache ?L))\<rparr>)"
    and zsh: "shape Z = [1, 2, 2, 1]"
    and zit: "\<forall>n<1. \<forall>r<2. \<forall>c<2. \<forall>k<1.
          item Z [n, r, c, k]
          = (\<Sum>i<2. \<Sum>j<2. \<Sum>m<1.
               item padX [n, r * stride ?L + i, c * stride ?L + j, m] * item ?W [i, j, m, k])
            + item (np_zeros [1, 1]) [0, k]"
    using conv2d_forward_computes[where ?L0.0 = ?Lnew and L = ?L and X = ?X and W = ?W
        and bias = "np_zeros [1, 1]" and kh = 2 and kw = 2 and C = 1 and och = 1 and B = 1
        and H = 3 and Wd = 3 and ph = 0 and pw = 0 and out_rows = 2 and out_cols = 2
        and mem = "\<lambda>_. 77", OF init _ _ _ _ _ _ sz sz]
    by (auto simp: np_zeros_def)
  have p: "item padX [0, i, j, 0] = item ?X [0, i, j, 0]" if "i < 3" "j < 3" for i j
    using pit that by simp
  have x: "item ?X [0, i, j, 0] = [1, 2, 3, 4, 5, 6, 7, 8, 9] ! (i * 3 + j)" for i j
    by (simp add: item_def)
  have w: "item ?W [i, j, 0, 0] = [1, 3, 2, 4] ! (i * 2 + j)" for i j
    by (simp add: item_def)
  have bz: "item (np_zeros [1, 1]) [0, 0] = 0" by (simp add: np_zeros_def)
  have "item Z [0, 1, 1, 0] = 75"
    using zit[rule_format, of 0 1 1 0] p x w bz by (simp add: sum_lessThan_2)
  then show ?thesis using pd fw zsh by (intro exI[of _ padX] exI[of _ Z]) simp
qed

subsection \<open>Conv2D: the size of the output\<close>

text \<open>
  Claim C5, amended.  The layer computes each output extent as
  \<^verbatim>\<open>int((in + 2*pad - k) / stride + 1)\<close>, which truncates toward zero.  When the kernel
  exceeds the padded input by no more than the stride, \<open>k \<le> in + 2 * pad + stride\<close> (so
  whenever the kernel fits), this is \<open>\<lfloor>(in + 2 * pad - k) / stride\<rfloor> + 1\<close>, it is not negative,
  and the pre-activation that \<^verbatim>\<open>forward\<close> caches has these two numbers as its spatial
  extents.  A \<open>7 \<times> 7\<close> input, a \<open>3 \<times> 3\<close> kernel and stride 2 give 3 with pad "valid" and,
  with pad "same" resolved to 1, give 4.
\<close>

theorem conv2d_output_size:
  assumes init: "(if n_in L0 = None then conv2d_init_parameters L0 (shape X) else Inr L0) = Inr L"
    and W: "map_of (parameters L) ''W'' = Some W" "shape W = [kh, kw, C, och]"
    and b: "map_of (parameters L) ''b'' = Some bias" "shape bias = [1, och]"
    and X: "shape X = [B, H, Wd, C]"
    and pad: "pad L = PadPair (int ph) (int pw)"
    and stride: "0 < stride L"
    and fits: "kh \<le> H + 2 * ph + stride L" "kw \<le> Wd + 2 * pw + stride L"
  shows "\<exists>Z. conv2d_forward mem L0 X
             = Inr (act_call (activation L) Z,
                 L\<lparr>cache := AList.update ''X'' (CArr X) (AList.update ''Z'' (CArr Z) (cache L))\<rparr>)
           \<and> shape Z = [B,
                nat (\<lfloor>(real H + 2 * real ph - real kh) / real (stride L)\<rfloor> + 1),
                nat (\<lfloor>(real Wd + 2 * real pw - real kw) / real (stride L)\<rfloor> + 1),
                och]
           \<and> out_size H (int ph) kh (stride L)
               = Inr (\<lfloor>(real H + 2 * real ph - real kh) / real (stride L)\<rfloor> + 1)
           \<and> out_size Wd (int pw) kw (stride L)
               = Inr (\<lfloor>(real Wd + 2 * real pw - real kw) / real (stride L)\<rfloor> + 1)
           \<and> 0 \<le> \<lfloor>(real H + 2 * real ph - real kh) / real (stride L)\<rfloor> + 1
           \<and> 0 \<le> \<lfloor>(real Wd + 2 * real pw - real kw) / real (stride L)\<rfloor> + 1
           \<and> out_size 7 0 3 2 = Inr 3
           \<and> resolve_pad (PadStr ''same'') (3, 3) = Inr (PadPair 1 1)
           \<and> out_size 7 1 3 2 = Inr 4"
proof -
  have ex: "out_size 7 0 3 2 = Inr 3" "resolve_pad (PadStr ''same'') (3, 3) = Inr (PadPair 1 1)"
    "out_size 7 1 3 2 = Inr 4"
    by (simp_all add: out_size_def py_int_def resolve_pad_def)
  define oh where "oh = \<lfloor>(real H + 2 * real ph - real kh) / real (stride L)\<rfloor> + 1"
  define ow where "ow = \<lfloor>(real Wd + 2 * real pw - real kw) / real (stride L)\<rfloor> + 1"
  have nonneg: "0 \<le> \<lfloor>(real n + 2 * real p - real k) / real (stride L)\<rfloor> + 1"
    if "k \<le> n + 2 * p + stride L" for n p k
  proof -
    have "real k \<le> real (n + 2 * p + stride L)" using that by (rule of_nat_le_iff[THEN iffD2])
    then have "- real (stride L) \<le> real n + 2 * real p - real k" by simp
    then have "- 1 \<le> (real n + 2 * real p - real k) / real (stride L)"
      using stride by (simp add: pos_le_divide_eq)
    then have "- 1 \<le> \<lfloor>(real n + 2 * real p - real k) / real (stride L)\<rfloor>"
      by (simp add: le_floor_iff)
    then show ?thesis by simp
  qed
  have oh0: "0 \<le> oh" and ow0: "0 \<le> ow"
    using nonneg[OF fits(1)] nonneg[OF fits(2)] by (simp_all add: oh_def ow_def)
  have sh: "out_size H (int ph) kh (stride L) = Inr oh"
    using out_size_floor[of "stride L" kh H "int ph"] stride fits(1) by (simp add: oh_def)
  have sw: "out_size Wd (int pw) kw (stride L) = Inr ow"
    using out_size_floor[of "stride L" kw Wd "int pw"] stride fits(2) by (simp add: ow_def)
  have sh': "out_size H (int ph) kh (stride L) = Inr (int (nat oh))" using sh oh0 by simp
  have sw': "out_size Wd (int pw) kw (stride L) = Inr (int (nat ow))" using sw ow0 by simp
  obtain Z where
    fw: "conv2d_forward mem L0 X
        = Inr (act_call (activation L) Z,
               L\<lparr>cache := AList.update ''X'' (CArr X) (AList.update ''Z'' (CArr Z) (cache L))\<rparr>)"
    and zsh: "shape Z = [B, nat oh, nat ow, och]"
    using conv2d_forward_result[OF init W b X pad sh' sw', of mem] by blast
  show ?thesis
    using fw zsh sh sw oh0 ow0 ex unfolding oh_def ow_def
    by (intro exI[of _ Z]) simp
qed

theorem conv2d_output_size_witness:
  "(\<exists>Z L'. conv2d_forward (\<lambda>_. 0)
        \<lparr>n_in = None, parameters = [], cache = [], gradients = [],
         kernel_shape = (3, 3), stride = 2, pad = PadStr ''valid'',
         n_out = 1, activation = \<lparr>act_call = (\<lambda>Z. Z), act_backward = (\<lambda>Z d. d)\<rparr>,
         init_weights = np_zeros\<rparr>
        (np_zeros [1, 7, 7, 1]) = Inr (Z, L')
      \<and> shape Z = [1, 3, 3, 1])
   \<and> (\<exists>Z L'. conv2d_forward (\<lambda>_. 0)
        \<lparr>n_in = None, parameters = [], cache = [], gradients = [],
         kernel_shape = (3, 3), stride = 2, pad = PadStr ''same'',
         n_out = 1, activation = \<lparr>act_call = (\<lambda>Z. Z), act_backward = (\<lambda>Z d. d)\<rparr>,
         init_weights = np_zeros\<rparr>
        (np_zeros [1, 7, 7, 1]) = Inr (Z, L')
      \<and> pad L' = PadPair 1 1
      \<and> shape Z = [1, 4, 4, 1])"
proof -
  let ?X = "np_zeros [1, 7, 7, 1]"
  let ?new = "\<lambda>p. \<lparr>n_in = None, parameters = [], cache = [], gradients = [],
         kernel_shape = (3, 3), stride = 2, pad = p,
         n_out = 1, activation = \<lparr>act_call = (\<lambda>Z. Z), act_backward = (\<lambda>Z d. d)\<rparr>,
         init_weights = np_zeros\<rparr>"
  let ?old = "\<lambda>p. \<lparr>n_in = Some 1,
         parameters = [(''W'', np_zeros [3, 3, 1, 1]), (''b'', np_zeros [1, 1])],
         cache = [(''Z'', CList []), (''X'', CList [])],
         gradients = [(''W'', np_zeros_like (np_zeros [3, 3, 1, 1])),
                      (''b'', np_zeros_like (np_zeros [1, 1]))],
         kernel_shape = (3, 3), stride = 2, pad = p,
         n_out = 1, activation = \<lparr>act_call = (\<lambda>Z. Z), act_backward = (\<lambda>Z d. d)\<rparr>,
         init_weights = np_zeros\<rparr>"
  have i1: "(if n_in (?new (PadStr ''valid'')) = None
             then conv2d_init_parameters (?new (PadStr ''valid'')) (shape ?X)
             else Inr (?new (PadStr ''valid''))) = Inr (?old (PadPair (int 0) (int 0)))"
    by (simp add: conv2d_init_parameters_def resolve_pad_def Let_def)
  have i2: "(if n_in (?new (PadStr ''same'')) = None
             then conv2d_init_parameters (?new (PadStr ''same'')) (shape ?X)
             else Inr (?new (PadStr ''same''))) = Inr (?old (PadPair (int 1) (int 1)))"
    by (simp add: conv2d_init_parameters_def resolve_pad_def Let_def)
  have a: "\<exists>Z L'. conv2d_forward (\<lambda>_. 0) (?new (PadStr ''valid'')) ?X = Inr (Z, L')
            \<and> shape Z = [1, 3, 3, 1]"
    using conv2d_output_size[OF i1, where W = "np_zeros [3, 3, 1, 1]" and bias = "np_zeros [1, 1]"
        and kh = 3 and kw = 3 and C = 1 and och = 1 and B = 1 and H = 7 and Wd = 7
        and mem = "\<lambda>_. 0"]
    by auto
  have b: "\<exists>Z L'. conv2d_forward (\<lambda>_. 0) (?new (PadStr ''same'')) ?X = Inr (Z, L')
            \<and> pad L' = PadPair 1 1 \<and> shape Z = [1, 4, 4, 1]"
    using conv2d_output_size[OF i2, where W = "np_zeros [3, 3, 1, 1]" and bias = "np_zeros [1, 1]"
        and kh = 3 and kw = 3 and C = 1 and och = 1 and B = 1 and H = 7 and Wd = 7
        and mem = "\<lambda>_. 0"]
    by auto
  show ?thesis using a b by blast
qed

text \<open>
  The claim as stated, for every input, fails where the kernel exceeds the padded input by
  more than the stride: a \<open>1 \<times> 1\<close> input under a \<open>4 \<times> 4\<close> kernel with stride 2 and pad
  "valid" gives \<^verbatim>\<open>int(-0.5) = 0\<close> rows and columns, and \<^verbatim>\<open>forward\<close> returns an array of
  shape \<open>[1, 0, 0, 1]\<close>, where the floor formula gives \<open>-1\<close>.
\<close>

theorem conv2d_output_size_counterexample:
  "map_sum id fst (conv2d_forward (\<lambda>_. 0)
        \<lparr>n_in = None, parameters = [], cache = [], gradients = [],
         kernel_shape = (4, 4), stride = 2, pad = PadStr ''valid'',
         n_out = 1, activation = \<lparr>act_call = (\<lambda>Z. Z), act_backward = (\<lambda>Z d. d)\<rparr>,
         init_weights = np_zeros\<rparr>
        \<lparr>shape = [1, 1, 1, 1], elems = [5]\<rparr>)
     = Inr \<lparr>shape = [1, 0, 0, 1], elems = []\<rparr>
   \<and> \<lfloor>(real 1 + 2 * real 0 - real 4) / real 2\<rfloor> + 1 = (- 1 :: int)"
proof -
  have sz: "out_size (Suc 0) 0 4 2 = Inr 0"
    by (simp add: out_size_def py_int_def ceiling_def)
  have e: "tabulate [Suc 0, 0, 0, Suc 0] (\<lambda>_. 0 :: real) = \<lparr>shape = [Suc 0, 0, 0, Suc 0], elems = []\<rparr>"
    by (simp add: tabulate_def indices.simps)
  have "conv2d_forward (\<lambda>_. 0)
        \<lparr>n_in = None, parameters = [], cache = [], gradients = [],
         kernel_shape = (4, 4), stride = 2, pad = PadStr ''valid'',
         n_out = 1, activation = \<lparr>act_call = (\<lambda>Z. Z), act_backward = (\<lambda>Z d. d)\<rparr>,
         init_weights = np_zeros\<rparr>
        \<lparr>shape = [1, 1, 1, 1], elems = [5]\<rparr>
     = Inr (\<lparr>shape = [1, 0, 0, 1], elems = []\<rparr>,
         \<lparr>n_in = Some 1,
          parameters = [(''W'', np_zeros [4, 4, 1, 1]), (''b'', np_zeros [1, 1])],
          cache = [(''Z'', CArr \<lparr>shape = [1, 0, 0, 1], elems = []\<rparr>),
                   (''X'', CArr \<lparr>shape = [1, 1, 1, 1], elems = [5]\<rparr>)],
          gradients = [(''W'', np_zeros_like (np_zeros [4, 4, 1, 1])),
                       (''b'', np_zeros_like (np_zeros [1, 1]))],
          kernel_shape = (4, 4), stride = 2, pad = PadPair 0 0,
          n_out = 1, activation = \<lparr>act_call = (\<lambda>Z. Z), act_backward = (\<lambda>Z d. d)\<rparr>,
          init_weights = np_zeros\<rparr>)"
    by (simp add: conv2d_forward_def conv2d_init_parameters_def resolve_pad_def Let_def
        lookup_def pad_pair_def sz np_pad4_def zero_pad_def np_empty_def e)
  then show ?thesis by simp
qed

subsection \<open>Pool2D: the constructor and the pooling mode\<close>

text \<open>
  Claim C6.  The constructor does not check the mode.  \<^verbatim>\<open>Pool2D((2, 2), mode="min")\<close>
  returns a layer; the error appears in \<^verbatim>\<open>forward\<close>, at the first window, as an
  \<^verbatim>\<open>UnboundLocalError\<close>.  An invalid pad, tested a few lines above in the same
  constructor, does raise there.
\<close>

theorem Pool2D_init_accepts_any_mode:
  "Pool2D_init (KPair 2 2) ''min'' 1 (PadInt 0)
     = Inr \<lparr>n_in = None, parameters = [],
            cache = [(''out_rows'', CList []), (''out_cols'', CList []), (''X_pad'', CList []),
                     (''p'', CList []), (''pool_shape'', CList [])],
            gradients = [],
            kernel_shape = (2, 2), stride = 1, pad = PadPair 0 0, mode = ''min''\<rparr>
   \<and> pool2d_forward
        \<lparr>n_in = None, parameters = [],
         cache = [(''out_rows'', CList []), (''out_cols'', CList []), (''X_pad'', CList []),
                  (''p'', CList []), (''pool_shape'', CList [])],
         gradients = [],
         kernel_shape = (2, 2), stride = 1, pad = PadPair 0 0, mode = ''min''\<rparr>
        \<lparr>shape = [1, 2, 2, 1], elems = [1, 3, 2, 0]\<rparr>
     = Inl (UnboundLocalError ''pool_fn'')
   \<and> Pool2D_init (KPair 2 2) ''max'' 1 (PadStr ''full'')
     = Inl (ValueError ''invalid Pad mode found in self.pad.'')"
proof -
  have sz: "out_size 2 0 2 (Suc 0) = Inr 1" by (simp add: out_size_def py_int_def)
  have "pool2d_forward
        \<lparr>n_in = None, parameters = [],
         cache = [(''out_rows'', CList []), (''out_cols'', CList []), (''X_pad'', CList []),
                  (''p'', CList []), (''pool_shape'', CList [])],
         gradients = [],
         kernel_shape = (2, 2), stride = 1, pad = PadPair 0 0, mode = ''min''\<rparr>
        \<lparr>shape = [1, 2, 2, 1], elems = [1, 3, 2, 0]\<rparr>
     = Inl (UnboundLocalError ''pool_fn'')"
    by (simp add: pool2d_forward_def pad_pair_def sz np_pad4_def zero_pad_def np_zeros_dims_def Let_def
        pool2d_forward_step_def select_pool_fn_def)
  then show ?thesis by (simp add: Pool2D_init_def resolve_pad_def)
qed

subsection \<open>Flatten: forward and backward\<close>

text \<open>
  Claim C8.  \<^verbatim>\<open>forward\<close> returns unless the reshape has no solution (an input of rank 0
  or with an empty kept axis, when \<open>keep_dim\<close> is not \<open>-1\<close>).  Whenever it returns, the cache
  holds the shape of \<open>X\<close>, the output has the elements of \<open>X\<close> in the same order,
  \<^verbatim>\<open>backward\<close> reshapes its argument to the shape of \<open>X\<close>, and \<^verbatim>\<open>backward\<close> of the
  output, or of any array with the same elements, is \<open>X\<close> itself.
\<close>

theorem flatten_roundtrip:
  fixes X :: "'a ndarray"
  assumes "well_shaped X"
  shows "((\<exists>Y L'. flatten_forward L X = Inr (Y, L'))
           \<longleftrightarrow> (keep_dim L = KeepInt (- 1)
                \<or> shape X \<noteq> []
                  \<and> (if keep_dim L = KeepStr ''first'' then hd (shape X) else last (shape X)) \<noteq> 0))
       \<and> (\<forall>Y L'. flatten_forward L X = Inr (Y, L') \<longrightarrow>
             map_of (cache L') ''in_dims'' = Some (CShape (shape X))
           \<and> elems Y = elems X
           \<and> (\<forall>dLdY :: 'a ndarray. flatten_backward L' dLdY = np_reshape dLdY (shape X))
           \<and> flatten_backward L' Y = Inr X
           \<and> (\<forall>dLdY. elems dLdY = elems Y \<longrightarrow> flatten_backward L' dLdY = Inr X))"
proof -
  have r: "(\<exists>Y L'. flatten_forward L X = Inr (Y, L'))
           \<longleftrightarrow> (keep_dim L = KeepInt (- 1)
                \<or> shape X \<noteq> []
                  \<and> (if keep_dim L = KeepStr ''first'' then hd (shape X) else last (shape X)) \<noteq> 0)"
    using assms by (rule flatten_forward_returns)
  have p: "map_of (cache L') ''in_dims'' = Some (CShape (shape X))
           \<and> elems Y = elems X
           \<and> (\<forall>dLdY :: 'a ndarray. flatten_backward L' dLdY = np_reshape dLdY (shape X))
           \<and> flatten_backward L' Y = Inr X
           \<and> (\<forall>dLdY. elems dLdY = elems Y \<longrightarrow> flatten_backward L' dLdY = Inr X)"
    if fw: "flatten_forward L X = Inr (Y, L')" for Y L'
  proof -
    note e = flatten_forward_elems[OF fw]
    have c: "map_of (cache L') ''in_dims'' = Some (CShape (shape X))"
      using e by (simp add: update_conv')
    have bw: "flatten_backward L' d = np_reshape d (shape X)" for d :: "'a ndarray"
      using c by (simp add: flatten_backward_def lookup_def)
    have inv: "flatten_backward L' d = Inr X" if "elems d = elems X" for d :: "'a ndarray"
      using that assms by (simp add: bw np_reshape_def well_shaped_def)
    show ?thesis using c e bw inv by simp
  qed
  show ?thesis using r p by blast
qed

theorem flatten_roundtrip_witness:
  "well_shaped \<lparr>shape = [2, 1, 2], elems = [1, 3, 2, 0 :: int]\<rparr>
   \<and> flatten_forward (Flatten_init (KeepStr ''first'')) \<lparr>shape = [2, 1, 2], elems = [1, 3, 2, 0 :: int]\<rparr>
      = Inr (\<lparr>shape = [2, 2], elems = [1, 3, 2, 0]\<rparr>,
             \<lparr>n_in = None, parameters = [], cache = [(''in_dims'', CShape [2, 1, 2])],
              gradients = [], keep_dim = KeepStr ''first''\<rparr>)
   \<and> flatten_backward
        \<lparr>n_in = None, parameters = [], cache = [(''in_dims'', CShape [2, 1, 2])],
         gradients = [], keep_dim = KeepStr ''first''\<rparr>
        \<lparr>shape = [2, 2], elems = [1, 3, 2, 0 :: int]\<rparr>
      = Inr \<lparr>shape = [2, 1, 2], elems = [1, 3, 2, 0]\<rparr>"
proof -
  let ?X = "\<lparr>shape = [2, 1, 2], elems = [1, 3, 2, 0 :: int]\<rparr>"
  have w: "well_shaped ?X" by (simp add: well_shaped_def)
  have f: "flatten_forward (Flatten_init (KeepStr ''first'')) ?X
      = Inr (\<lparr>shape = [2, 2], elems = [1, 3, 2, 0]\<rparr>,
             \<lparr>n_in = None, parameters = [], cache = [(''in_dims'', CShape [2, 1, 2])],
              gradients = [], keep_dim = KeepStr ''first''\<rparr>)"
    by (simp add: flatten_forward_def Flatten_init_def Let_def reshape_rows_def np_reshape_def)
  have "flatten_backward
        \<lparr>n_in = None, parameters = [], cache = [(''in_dims'', CShape [2, 1, 2])],
         gradients = [], keep_dim = KeepStr ''first''\<rparr>
        \<lparr>shape = [2, 2], elems = [1, 3, 2, 0 :: int]\<rparr> = Inr ?X"
    using flatten_roundtrip[OF w, of "Flatten_init (KeepStr ''first'')"] f by blast
  then show ?thesis using w f by simp
qed

subsection \<open>Pool2D: average pooling\<close>

text \<open>
  Claim C4.  In average mode \<^verbatim>\<open>forward\<close> returns, for every output window and channel, the
  sum over the \<open>kh \<times> kw\<close> window of the zero-padded input divided by \<open>kh * kw\<close>: padded
  cells are zero and the divisor is the full kernel area whatever the window holds.
  \<^verbatim>\<open>backward\<close>, run on the layer that \<^verbatim>\<open>forward\<close> returned, gives every input cell the sum,
  over all windows that contain it, of the upstream gradient at that window divided by
  \<open>kh * kw\<close>; the result has the shape of the unpadded input, so contributions to padded
  cells are cropped away.
\<close>

theorem pool2d_average:
  assumes ks: "kernel_shape L = (kh, kw)" "0 < kh" "0 < kw"
    and md: "mode L = ''average''"
    and pad: "pad L = PadPair (int ph) (int pw)"
    and cache: "map_of (cache L) ''out_rows'' = Some a" "map_of (cache L) ''out_cols'' = Some b"
    and X: "shape X = [B, H, Wd, C]"
    and sizes: "out_size H (int ph) kh (stride L) = Inr (int R)"
               "out_size Wd (int pw) kw (stride L) = Inr (int Cc)"
    and G: "shape dLdY = [B, R, Cc, C]"
  shows "pool2d_forward L X
         = Inr (tabulate [B, R, Cc, C]
                 (\<lambda>idx. (\<Sum>i<kh. \<Sum>j<kw. item (zero_pad X ph pw)
                              [idx ! 0, idx ! 1 * stride L + i, idx ! 2 * stride L + j, idx ! 3])
                         / real (kh * kw)),
                L\<lparr>cache := AList.update ''X'' (CArr X) (cache L)\<rparr>)
       \<and> (\<forall>n<B. \<forall>i<H + 2 * ph. \<forall>j<Wd + 2 * pw. \<forall>m<C.
            item (zero_pad X ph pw) [n, i, j, m]
            = (if ph \<le> i \<and> i < ph + H \<and> pw \<le> j \<and> j < pw + Wd
               then item X [n, i - ph, j - pw, m] else 0))
       \<and> pool2d_backward (L\<lparr>cache := AList.update ''X'' (CArr X) (cache L)\<rparr>) dLdY
         = Inr (tabulate [B, H, Wd, C]
             (\<lambda>idx. \<Sum>row<R. \<Sum>col<Cc.
                if row * stride L \<le> ph + idx ! 1 \<and> ph + idx ! 1 < row * stride L + kh
                   \<and> col * stride L \<le> pw + idx ! 2 \<and> pw + idx ! 2 < col * stride L + kw
                then item dLdY [idx ! 0, row, col, idx ! 3] / real (kh * kw) else 0))"
proof -
  let ?L' = "L\<lparr>cache := AList.update ''X'' (CArr X) (cache L)\<rparr>"
  have f: "select_pool_fn (mode L) = Some NpMean" using md by (simp add: select_pool_fn_def)
  have mean: "pool_value NpMean (map (\<lambda>t. g (t div kw) (t mod kw)) [0..<kh * kw])
              = (\<Sum>i<kh. \<Sum>j<kw. g i j) / real (kh * kw)" for g :: "nat \<Rightarrow> nat \<Rightarrow> real"
    by (simp add: pool_value_def sum_list_row_major)
  have fw: "pool2d_forward L X
         = Inr (tabulate [B, R, Cc, C]
                 (\<lambda>idx. (\<Sum>i<kh. \<Sum>j<kw. item (zero_pad X ph pw)
                              [idx ! 0, idx ! 1 * stride L + i, idx ! 2 * stride L + j, idx ! 3])
                         / real (kh * kw)), ?L')"
  proof -
    have "tabulate [B, R, Cc, C]
            (\<lambda>idx. pool_value NpMean (map (\<lambda>t. item (zero_pad X ph pw)
                [idx ! 0, idx ! 1 * stride L + t div kw, idx ! 2 * stride L + t mod kw, idx ! 3])
                [0..<kh * kw]))
        = tabulate [B, R, Cc, C]
            (\<lambda>idx. (\<Sum>i<kh. \<Sum>j<kw. item (zero_pad X ph pw)
                              [idx ! 0, idx ! 1 * stride L + i, idx ! 2 * stride L + j, idx ! 3])
                         / real (kh * kw))"
    proof (rule tabulate_cong)
      fix idx :: "nat list"
      show "pool_value NpMean (map (\<lambda>t. item (zero_pad X ph pw)
                [idx ! 0, idx ! 1 * stride L + t div kw, idx ! 2 * stride L + t mod kw, idx ! 3])
                [0..<kh * kw])
            = (\<Sum>i<kh. \<Sum>j<kw. item (zero_pad X ph pw)
                              [idx ! 0, idx ! 1 * stride L + i, idx ! 2 * stride L + j, idx ! 3])
                         / real (kh * kw)"
        by (rule mean[of "\<lambda>i j. item (zero_pad X ph pw)
                              [idx ! 0, idx ! 1 * stride L + i, idx ! 2 * stride L + j, idx ! 3]"])
    qed
    then show ?thesis using pool2d_forward_result[OF ks f pad X sizes] by simp
  qed
  have bw: "pool2d_backward ?L' dLdY
         = Inr (tabulate [B, H, Wd, C]
             (\<lambda>idx. \<Sum>row<R. \<Sum>col<Cc.
                if row * stride L \<le> ph + idx ! 1 \<and> ph + idx ! 1 < row * stride L + kh
                   \<and> col * stride L \<le> pw + idx ! 2 \<and> pw + idx ! 2 < col * stride L + kw
                then item dLdY [idx ! 0, row, col, idx ! 3] / real (kh * kw) else 0))"
    using pool2d_backward_average_result[where L = ?L' and X = X and dLdY = dLdY and kh = kh
        and kw = kw and ph = ph and pw = pw and a = a and b = b and B = B and H = H and Wd = Wd
        and C = C and R = R and Cc = Cc]
      ks md pad cache X sizes G
    by (simp add: update_conv')
  show ?thesis using fw bw item_zero_pad[OF X] by simp
qed

text \<open>
  The window \<open>[[1, 3], [2, 0]]\<close>: its average is \<open>3/2\<close>, and an upstream gradient \<open>4\<close> gives
  each of the four cells \<open>1\<close>.
\<close>

theorem pool2d_average_witness:
  "pool2d_forward
     \<lparr>n_in = None, parameters = [],
      cache = [(''out_rows'', CList []), (''out_cols'', CList []), (''X_pad'', CList []),
               (''p'', CList []), (''pool_shape'', CList [])],
      gradients = [],
      kernel_shape = (2, 2), stride = 1, pad = PadPair 0 0, mode = ''average''\<rparr>
     \<lparr>shape = [1, 2, 2, 1], elems = [1, 3, 2, 0]\<rparr>
   = Inr (\<lparr>shape = [1, 1, 1, 1], elems = [3 / 2]\<rparr>,
     \<lparr>n_in = None, parameters = [],
      cache = [(''out_rows'', CList []), (''out_cols'', CList []), (''X_pad'', CList []),
               (''p'', CList []), (''pool_shape'', CList []),
               (''X'', CArr \<lparr>shape = [1, 2, 2, 1], elems = [1, 3, 2, 0]\<rparr>)],
      gradients = [],
      kernel_shape = (2, 2), stride = 1, pad = PadPair 0 0, mode = ''average''\<rparr>)
  \<and> pool2d_backward
     \<lparr>n_in = None, parameters = [],
      cache = [(''out_rows'', CList []), (''out_cols'', CList []), (''X_pad'', CList []),
               (''p'', CList []), (''pool_shape'', CList []),
               (''X'', CArr \<lparr>shape = [1, 2, 2, 1], elems = [1, 3, 2, 0]\<rparr>)],
      gradients = [],
      kernel_shape = (2, 2), stride = 1, pad = PadPair 0 0, mode = ''average''\<rparr>
     \<lparr>shape = [1, 1, 1, 1], elems = [4]\<rparr>
   = Inr \<lparr>shape = [1, 2, 2, 1], elems = [1, 1, 1, 1]\<rparr>"
proof -
  let ?X = "\<lparr>shape = [1, 2, 2, 1], elems = [1, 3, 2, 0 :: real]\<rparr>"
  let ?G = "\<lparr>shape = [1, 1, 1, 1], elems = [4 :: real]\<rparr>"
  let ?L = "\<lparr>n_in = None, parameters = [],
      cache = [(''out_rows'', CList []), (''out_cols'', CList []), (''X_pad'', CList []),
               (''p'', CList []), (''pool_shape'', CList [])],
      gradients = [],
      kernel_shape = (2, 2), stride = 1, pad = PadPair 0 0, mode = ''average''\<rparr>"
  have sz: "out_size 2 (int 0) 2 (stride ?L) = Inr (int 1)"
    by (simp add: out_size_def py_int_def)
  note inst = pool2d_average[where L = ?L and kh = 2 and kw = 2 and ph = 0 and pw = 0
      and a = "CList []" and b = "CList []" and X = ?X and B = 1 and H = 2 and Wd = 2 and C = 1
      and R = 1 and Cc = 1 and dLdY = ?G, OF _ _ _ _ _ _ _ _ sz sz]
  have fwv: "tabulate [1, 1, 1, 1]
      (\<lambda>idx. (\<Sum>i<2. \<Sum>j<2. item (zero_pad ?X 0 0)
                 [idx ! 0, idx ! 1 * stride ?L + i, idx ! 2 * stride ?L + j, idx ! 3]) / real (2 * 2))
      = \<lparr>shape = [1, 1, 1, 1], elems = [3 / 2]\<rparr>"
    by code_simp
  have bwv: "tabulate [1, 2, 2, 1]
             (\<lambda>idx. \<Sum>row<1. \<Sum>col<1.
                if row * stride ?L \<le> 0 + idx ! 1 \<and> 0 + idx ! 1 < row * stride ?L + 2
                   \<and> col * stride ?L \<le> 0 + idx ! 2 \<and> 0 + idx ! 2 < col * stride ?L + 2
                then item ?G [idx ! 0, row, col, idx ! 3] / real (2 * 2) else 0)
      = \<lparr>shape = [1, 2, 2, 1], elems = [1, 1, 1, 1]\<rparr>"
    by code_simp
  have c: "AList.update ''X'' (CArr ?X) (cache ?L)
      = [(''out_rows'', CList []), (''out_cols'', CList []), (''X_pad'', CList []),
               (''p'', CList []), (''pool_shape'', CList []), (''X'', CArr ?X)]"
    by simp
  show ?thesis
    using inst unfolding fwv bwv by (simp add: c)
qed

subsection \<open>Pool2D: max pooling\<close>

text \<open>
  Claim C3.  \<^verbatim>\<open>argmax\<close> of a non-empty list is the first position of its maximum.  In max
  mode \<^verbatim>\<open>forward\<close> returns the maximum of each window of the padded input, and
  \<^verbatim>\<open>backward\<close> gives every input cell the sum of the upstream gradients of exactly those
  windows in which the cell is at the argmax position of the flattened window (row-major);
  every other cell of a window receives nothing from it.  For the single window
  \<open>[[1, 3], [2, 0]]\<close> the forward output is \<open>3\<close>, and backward with upstream gradient \<open>5\<close>
  returns \<open>[[0, 5], [0, 0]]\<close>.
\<close>

theorem pool2d_max:
  assumes ks: "kernel_shape L = (kh, kw)" "0 < kh" "0 < kw"
    and md: "mode L = ''max''"
    and pad: "pad L = PadPair (int ph) (int pw)"
    and cache: "map_of (cache L) ''out_rows'' = Some a" "map_of (cache L) ''out_cols'' = Some b"
    and X: "shape X = [B, H, Wd, C]"
    and sizes: "out_size H (int ph) kh (stride L) = Inr (int R)"
               "out_size Wd (int pw) kw (stride L) = Inr (int Cc)"
    and G: "shape dLdY = [B, R, Cc, C]"
  shows "(\<forall>xs. xs \<noteq> [] \<longrightarrow>
            argmax_list xs < length xs
          \<and> (\<forall>k<length xs. xs ! k \<le> xs ! argmax_list xs)
          \<and> (\<forall>k<argmax_list xs. xs ! k < xs ! argmax_list xs))
       \<and> pool2d_forward L X
         = Inr (tabulate [B, R, Cc, C]
                 (\<lambda>idx. Max (set (map (\<lambda>t. item (zero_pad X ph pw)
                      [idx ! 0, idx ! 1 * stride L + t div kw, idx ! 2 * stride L + t mod kw, idx ! 3])
                      [0..<kh * kw]))),
                L\<lparr>cache := AList.update ''X'' (CArr X) (cache L)\<rparr>)
       \<and> pool2d_backward (L\<lparr>cache := AList.update ''X'' (CArr X) (cache L)\<rparr>) dLdY
         = Inr (tabulate [B, H, Wd, C]
             (\<lambda>idx. \<Sum>row<R. \<Sum>col<Cc.
                if row * stride L \<le> ph + idx ! 1 \<and> ph + idx ! 1 < row * stride L + kh
                   \<and> col * stride L \<le> pw + idx ! 2 \<and> pw + idx ! 2 < col * stride L + kw
                   \<and> (ph + idx ! 1 - row * stride L) * kw + (pw + idx ! 2 - col * stride L)
                     = argmax_list (map (\<lambda>t. item (zero_pad X ph pw)
                          [idx ! 0, row * stride L + t div kw, col * stride L + t mod kw, idx ! 3])
                          [0..<kh * kw])
                then item dLdY [idx ! 0, row, col, idx ! 3] else 0))
       \<and> map_sum id fst (pool2d_forward
            \<lparr>n_in = None, parameters = [],
             cache = [(''out_rows'', CList []), (''out_cols'', CList []), (''X_pad'', CList []),
                      (''p'', CList []), (''pool_shape'', CList [])],
             gradients = [],
             kernel_shape = (2, 2), stride = 1, pad = PadPair 0 0, mode = ''max''\<rparr>
            \<lparr>shape = [1, 2, 2, 1], elems = [1, 3, 2, 0]\<rparr>)
          = Inr \<lparr>shape = [1, 1, 1, 1], elems = [3]\<rparr>
       \<and> pool2d_backward
            \<lparr>n_in = None, parameters = [],
             cache = [(''out_rows'', CList []), (''out_cols'', CList []), (''X_pad'', CList []),
                      (''p'', CList []), (''pool_shape'', CList []),
                      (''X'', CArr \<lparr>shape = [1, 2, 2, 1], elems = [1, 3, 2, 0]\<rparr>)],
             gradients = [],
             kernel_shape = (2, 2), stride = 1, pad = PadPair 0 0, mode = ''max''\<rparr>
            \<lparr>shape = [1, 1, 1, 1], elems = [5]\<rparr>
          = Inr \<lparr>shape = [1, 2, 2, 1], elems = [0, 5, 0, 0]\<rparr>"
proof -
  let ?L' = "L\<lparr>cache := AList.update ''X'' (CArr X) (cache L)\<rparr>"
  have f: "select_pool_fn (mode L) = Some NpMax" using md by (simp add: select_pool_fn_def)
  have ne: "map g [0..<kh * kw] \<noteq> []" for g :: "nat \<Rightarrow> real" using ks(2,3) by simp
  have mx: "pool_value NpMax (map g [0..<kh * kw]) = Max (set (map g [0..<kh * kw]))"
    for g :: "nat \<Rightarrow> real"
    using max_list_Max[OF ne[of g]] by (simp add: pool_value_def)
  have fw: "pool2d_forward L X
         = Inr (tabulate [B, R, Cc, C]
                 (\<lambda>idx. Max (set (map (\<lambda>t. item (zero_pad X ph pw)
                      [idx ! 0, idx ! 1 * stride L + t div kw, idx ! 2 * stride L + t mod kw, idx ! 3])
                      [0..<kh * kw]))), ?L')"
    using pool2d_forward_result[OF ks f pad X sizes] by (simp only: mx)
  have bw: "pool2d_backward ?L' dLdY
         = Inr (tabulate [B, H, Wd, C]
             (\<lambda>idx. \<Sum>row<R. \<Sum>col<Cc.
                if row * stride L \<le> ph + idx ! 1 \<and> ph + idx ! 1 < row * stride L + kh
                   \<and> col * stride L \<le> pw + idx ! 2 \<and> pw + idx ! 2 < col * stride L + kw
                   \<and> (ph + idx ! 1 - row * stride L) * kw + (pw + idx ! 2 - col * stride L)
                     = argmax_list (map (\<lambda>t. item (zero_pad X ph pw)
                          [idx ! 0, row * stride L + t div kw, col * stride L + t mod kw, idx ! 3])
                          [0..<kh * kw])
                then item dLdY [idx ! 0, row, col, idx ! 3] else 0))"
    using pool2d_backward_max_result[where L = ?L' and X = X and dLdY = dLdY and kh = kh
        and kw = kw and ph = ph and pw = pw and a = a and b = b and B = B and H = H and Wd = Wd
        and C = C and R = R and Cc = Cc]
      ks md pad cache X sizes G
    by (simp add: update_conv')
  have am: "\<forall>xs :: real list. xs \<noteq> [] \<longrightarrow>
            argmax_list xs < length xs
          \<and> (\<forall>k<length xs. xs ! k \<le> xs ! argmax_list xs)
          \<and> (\<forall>k<argmax_list xs. xs ! k < xs ! argmax_list xs)"
    using argmax_list_first_max by blast
  show ?thesis using am fw bw pool_max_example by simp
qed

text \<open>
  A window with a tie, \<open>[[2, 7], [7, 1]]\<close>: the whole gradient goes to the first \<open>7\<close>.
\<close>

theorem pool2d_max_witness:
  "pool2d_forward
     \<lparr>n_in = None, parameters = [],
      cache = [(''out_rows'', CList []), (''out_cols'', CList []), (''X_pad'', CList []),
               (''p'', CList []), (''pool_shape'', CList [])],
      gradients = [],
      kernel_shape = (2, 2), stride = 1, pad = PadPair 0 0, mode = ''max''\<rparr>
     \<lparr>shape = [1, 2, 2, 1], elems = [2, 7, 7, 1]\<rparr>
   = Inr (\<lparr>shape = [1, 1, 1, 1], elems = [7]\<rparr>,
     \<lparr>n_in = None, parameters = [],
      cache = [(''out_rows'', CList []), (''out_cols'', CList []), (''X_pad'', CList []),
               (''p'', CList []), (''pool_shape'', CList []),
               (''X'', CArr \<lparr>shape = [1, 2, 2, 1], elems = [2, 7, 7, 1]\<rparr>)],
      gradients = [],
      kernel_shape = (2, 2), stride = 1, pad = PadPair 0 0, mode = ''max''\<rparr>)
  \<and> pool2d_backward
     \<lparr>n_in = None, parameters = [],
      cache = [(''out_rows'', CList []), (''out_cols'', CList []), (''X_pad'', CList []),
               (''p'', CList []), (''pool_shape'', CList []),
               (''X'', CArr \<lparr>shape = [1, 2, 2, 1], elems = [2, 7, 7, 1]\<rparr>)],
      gradients = [],
      kernel_shape = (2, 2), stride = 1, pad = PadPair 0 0, mode = ''max''\<rparr>
     \<lparr>shape = [1, 1, 1, 1], elems = [5]\<rparr>
   = Inr \<lparr>shape = [1, 2, 2, 1], elems = [0, 5, 0, 0]\<rparr>"
proof -
  let ?X = "\<lparr>shape = [1, 2, 2, 1], elems = [2, 7, 7, 1 :: real]\<rparr>"
  let ?G = "\<lparr>shape = [1, 1, 1, 1], elems = [5 :: real]\<rparr>"
  let ?L = "\<lparr>n_in = None, parameters = [],
      cache = [(''out_rows'', CList []), (''out_cols'', CList []), (''X_pad'', CList []),
               (''p'', CList []), (''pool_shape'', CList [])],
      gradients = [],
      kernel_shape = (2, 2), stride = 1, pad = PadPair 0 0, mode = ''max''\<rparr>"
  have sz: "out_size 2 (int 0) 2 (stride ?L) = Inr (int 1)"
    by (simp add: out_size_def py_int_def)
  note inst = pool2d_max[where L = ?L and kh = 2 and kw = 2 and ph = 0 and pw = 0
      and a = "CList []" and b = "CList []" and X = ?X and B = 1 and H = 2 and Wd = 2 and C = 1
      and R = 1 and Cc = 1 and dLdY = ?G, OF _ _ _ _ _ _ _ _ sz sz]
  have fwv: "tabulate [1, 1, 1, 1]
                 (\<lambda>idx. Max (set (map (\<lambda>t. item (zero_pad ?X 0 0)
                      [idx ! 0, idx ! 1 * stride ?L + t div 2, idx ! 2 * stride ?L + t mod 2, idx ! 3])
                      [0..<2 * 2])))
      = \<lparr>shape = [1, 1, 1, 1], elems = [7]\<rparr>"
    by code_simp
  have bwv: "tabulate [1, 2, 2, 1]
             (\<lambda>idx. \<Sum>row<1. \<Sum>col<1.
                if row * stride ?L \<le> 0 + idx ! 1 \<and> 0 + idx ! 1 < row * stride ?L + 2
                   \<and> col * stride ?L \<le> 0 + idx ! 2 \<and> 0 + idx ! 2 < col * stride ?L + 2
                   \<and> (0 + idx ! 1 - row * stride ?L) * 2 + (0 + idx ! 2 - col * stride ?L)
                     = argmax_list (map (\<lambda>t. item (zero_pad ?X 0 0)
                          [idx ! 0, row * stride ?L + t div 2, col * stride ?L + t mod 2, idx ! 3])
                          [0..<2 * 2])
                then item ?G [idx ! 0, row, col, idx ! 3] else 0)
      = \<lparr>shape = [1, 2, 2, 1], elems = [0, 5, 0, 0]\<rparr>"
    by code_simp
  have c: "AList.update ''X'' (CArr ?X) (cache ?L)
      = [(''out_rows'', CList []), (''out_cols'', CList []), (''X_pad'', CList []),
               (''p'', CList []), (''pool_shape'', CList []), (''X'', CArr ?X)]"
    by simp
  show ?thesis
    using inst unfolding fwv bwv by (simp add: c)
qed

subsection \<open>Pool2D: max pooling over padded windows\<close>

text \<open>
  Claim C10, amended.  For a window that contains at least one padded cell and whose real
  cells are all strictly negative, \<^verbatim>\<open>forward\<close> returns \<open>0\<close> at that output position, the
  argmax of the window is a padded cell, and the gradient that \<^verbatim>\<open>backward\<close> returns does
  not depend on the upstream gradient at that position: two upstream gradients that differ
  only there give the same result.
\<close>

theorem pool2d_max_padded_window:
  assumes ks: "kernel_shape L = (kh, kw)" "0 < kh" "0 < kw"
    and md: "mode L = ''max''"
    and pad: "pad L = PadPair (int ph) (int pw)"
    and cache: "map_of (cache L) ''out_rows'' = Some a" "map_of (cache L) ''out_cols'' = Some b"
    and X: "shape X = [B, H, Wd, C]"
    and sizes: "out_size H (int ph) kh (stride L) = Inr (int R)"
               "out_size Wd (int pw) kw (stride L) = Inr (int Cc)"
    and G: "shape dLdY = [B, R, Cc, C]" "shape dLdY' = [B, R, Cc, C]"
    and pos: "n < B" "row < R" "col < Cc" "m < C"
    and neg: "\<forall>i<kh. \<forall>j<kw.
                ph \<le> row * stride L + i \<and> row * stride L + i < ph + H
                \<and> pw \<le> col * stride L + j \<and> col * stride L + j < pw + Wd
                \<longrightarrow> item X [n, row * stride L + i - ph, col * stride L + j - pw, m] < 0"
    and padded: "\<exists>i<kh. \<exists>j<kw.
                \<not> (ph \<le> row * stride L + i \<and> row * stride L + i < ph + H
                   \<and> pw \<le> col * stride L + j \<and> col * stride L + j < pw + Wd)"
    and agree: "\<forall>n'<B. \<forall>r<R. \<forall>c<Cc. \<forall>m'<C. (n', r, c, m') \<noteq> (n, row, col, m)
                \<longrightarrow> item dLdY' [n', r, c, m'] = item dLdY [n', r, c, m']"
  shows "\<exists>Y dX t.
            pool2d_forward L X = Inr (Y, L\<lparr>cache := AList.update ''X'' (CArr X) (cache L)\<rparr>)
          \<and> item Y [n, row, col, m] = 0
          \<and> t = argmax_list (map (\<lambda>t. item (zero_pad X ph pw)
                    [n, row * stride L + t div kw, col * stride L + t mod kw, m]) [0..<kh * kw])
          \<and> t < kh * kw
          \<and> \<not> (ph \<le> row * stride L + t div kw \<and> row * stride L + t div kw < ph + H
               \<and> pw \<le> col * stride L + t mod kw \<and> col * stride L + t mod kw < pw + Wd)
          \<and> pool2d_backward (L\<lparr>cache := AList.update ''X'' (CArr X) (cache L)\<rparr>) dLdY = Inr dX
          \<and> pool2d_backward (L\<lparr>cache := AList.update ''X'' (CArr X) (cache L)\<rparr>) dLdY' = Inr dX"
proof -
  let ?L' = "L\<lparr>cache := AList.update ''X'' (CArr X) (cache L)\<rparr>"
  let ?xs = "\<lambda>n row col m. map (\<lambda>t. item (zero_pad X ph pw)
                    [n, row * stride L + t div kw, col * stride L + t mod kw, m]) [0..<kh * kw]"
  let ?t = "argmax_list (?xs n row col m)"
  let ?c = "\<lambda>idx row col.
                   row * stride L \<le> ph + idx ! 1 \<and> ph + idx ! 1 < row * stride L + kh
                   \<and> col * stride L \<le> pw + idx ! 2 \<and> pw + idx ! 2 < col * stride L + kw
                   \<and> (ph + idx ! 1 - row * stride L) * kw + (pw + idx ! 2 - col * stride L)
                     = argmax_list (?xs (idx ! 0) row col (idx ! 3))"
  have rows: "row * stride L + kh \<le> H + 2 * ph"
    using out_size_window_fits[OF sizes(1), of row] pos by simp
  have cols: "col * stride L + kw \<le> Wd + 2 * pw"
    using out_size_window_fits[OF sizes(2), of col] pos by simp
  note w = padded_window_values[OF ks(2,3) X rows cols pos(1,4) neg padded]
  have f: "select_pool_fn (mode L) = Some NpMax" using md by (simp add: select_pool_fn_def)
  have ne: "?xs n row col m \<noteq> []" using ks(2,3) by simp
  have fw: "pool2d_forward L X
         = Inr (tabulate [B, R, Cc, C] (\<lambda>idx. pool_value NpMax (?xs (idx ! 0) (idx ! 1) (idx ! 2) (idx ! 3))), ?L')"
    using pool2d_forward_result[OF ks f pad X sizes] .
  have y: "item (tabulate [B, R, Cc, C] (\<lambda>idx. pool_value NpMax (?xs (idx ! 0) (idx ! 1) (idx ! 2) (idx ! 3))))
             [n, row, col, m] = 0"
    using pos w(1) max_list_Max[OF ne] by (simp add: pool_value_def)
  have bw: "pool2d_backward ?L' D
         = Inr (tabulate [B, H, Wd, C]
             (\<lambda>idx. \<Sum>row<R. \<Sum>col<Cc. if ?c idx row col then item D [idx ! 0, row, col, idx ! 3] else 0))"
    if "shape D = [B, R, Cc, C]" for D
    using pool2d_backward_max_result[where L = ?L' and X = X and dLdY = D and kh = kh
        and kw = kw and ph = ph and pw = pw and a = a and b = b and B = B and H = H and Wd = Wd
        and C = C and R = R and Cc = Cc]
      ks md pad cache X sizes that
    by (simp add: update_conv')
  have tm: "(if ?c idx r c then item dLdY' [idx ! 0, r, c, idx ! 3] else 0)
            = (if ?c idx r c then item dLdY [idx ! 0, r, c, idx ! 3] else 0)"
    if ib: "in_bounds [B, H, Wd, C] idx" and r: "r < R" and c: "c < Cc" for idx r c
  proof (cases "(idx ! 0, r, c, idx ! 3) = (n, row, col, m)")
    case False
    obtain i0 i1 i2 i3 where idx: "idx = [i0, i1, i2, i3]" "i0 < B" "i3 < C"
      using ib by (auto simp: in_bounds_Cons)
    have "item dLdY' [idx ! 0, r, c, idx ! 3] = item dLdY [idx ! 0, r, c, idx ! 3]"
      using agree idx(2,3) r c False by (simp add: idx(1))
    then show ?thesis by (simp only:)
  next
    case True
    have "\<not> ?c idx r c"
    proof
      assume h: "?c idx r c"
      have e: "?t = (ph + idx ! 1 - row * stride L) * kw + (pw + idx ! 2 - col * stride L)"
        using h True by simp
      have j: "pw + idx ! 2 - col * stride L < kw" using h True by auto
      have "?t div kw = ph + idx ! 1 - row * stride L" "?t mod kw = pw + idx ! 2 - col * stride L"
        using j by (simp_all add: e)
      then have "row * stride L + ?t div kw = ph + idx ! 1" "col * stride L + ?t mod kw = pw + idx ! 2"
        using h True by auto
      moreover have "idx ! 1 < H" "idx ! 2 < Wd" using ib by (auto simp: in_bounds_Cons)
      ultimately show False using w(2) by simp
    qed
    then show ?thesis by (simp only: if_False)
  qed
  have eq: "tabulate [B, H, Wd, C]
             (\<lambda>idx. \<Sum>row<R. \<Sum>col<Cc. if ?c idx row col then item dLdY' [idx ! 0, row, col, idx ! 3] else 0)
          = tabulate [B, H, Wd, C]
             (\<lambda>idx. \<Sum>row<R. \<Sum>col<Cc. if ?c idx row col then item dLdY [idx ! 0, row, col, idx ! 3] else 0)"
    by (rule tabulate_cong, intro sum.cong refl tm) simp_all
  show ?thesis
    using fw y w(2,3) bw[OF G(1)] bw[OF G(2)] eq by auto
qed

theorem pool2d_max_padded_window_witness:
  "pool2d_forward
     \<lparr>n_in = None, parameters = [],
      cache = [(''out_rows'', CList []), (''out_cols'', CList []), (''X_pad'', CList []),
               (''p'', CList []), (''pool_shape'', CList [])],
      gradients = [],
      kernel_shape = (2, 2), stride = 1, pad = PadPair 1 1, mode = ''max''\<rparr>
     \<lparr>shape = [1, 2, 2, 1], elems = [- 1, - 3, - 2, - 4]\<rparr>
   = Inr (\<lparr>shape = [1, 3, 3, 1], elems = [0, 0, 0, 0, - 1, 0, 0, 0, 0]\<rparr>,
     \<lparr>n_in = None, parameters = [],
      cache = [(''out_rows'', CList []), (''out_cols'', CList []), (''X_pad'', CList []),
               (''p'', CList []), (''pool_shape'', CList []),
               (''X'', CArr \<lparr>shape = [1, 2, 2, 1], elems = [- 1, - 3, - 2, - 4]\<rparr>)],
      gradients = [],
      kernel_shape = (2, 2), stride = 1, pad = PadPair 1 1, mode = ''max''\<rparr>)
  \<and> argmax_list [0, 0, 0, - 1 :: real] = 0
  \<and> pool2d_backward
     \<lparr>n_in = None, parameters = [],
      cache = [(''out_rows'', CList []), (''out_cols'', CList []), (''X_pad'', CList []),
               (''p'', CList []), (''pool_shape'', CList []),
               (''X'', CArr \<lparr>shape = [1, 2, 2, 1], elems = [- 1, - 3, - 2, - 4]\<rparr>)],
      gradients = [],
      kernel_shape = (2, 2), stride = 1, pad = PadPair 1 1, mode = ''max''\<rparr>
     \<lparr>shape = [1, 3, 3, 1], elems = [1, 2, 3, 4, 5, 6, 7, 8, 9]\<rparr>
   = Inr \<lparr>shape = [1, 2, 2, 1], elems = [5, 0, 0, 0]\<rparr>
  \<and> pool2d_backward
     \<lparr>n_in = None, parameters = [],
      cache = [(''out_rows'', CList []), (''out_cols'', CList []), (''X_pad'', CList []),
               (''p'', CList []), (''pool_shape'', CList []),
               (''X'', CArr \<lparr>shape = [1, 2, 2, 1], elems = [- 1, - 3, - 2, - 4]\<rparr>)],
      gradients = [],
      kernel_shape = (2, 2), stride = 1, pad = PadPair 1 1, mode = ''max''\<rparr>
     \<lparr>shape = [1, 3, 3, 1], elems = [100, 2, 3, 4, 5, 6, 7, 8, 9]\<rparr>
   = Inr \<lparr>shape = [1, 2, 2, 1], elems = [5, 0, 0, 0]\<rparr>"
proof -
  let ?X = "\<lparr>shape = [1, 2, 2, 1], elems = [- 1, - 3, - 2, - 4 :: real]\<rparr>"
  let ?G = "\<lparr>shape = [1, 3, 3, 1], elems = [1, 2, 3, 4, 5, 6, 7, 8, 9 :: real]\<rparr>"
  let ?G' = "\<lparr>shape = [1, 3, 3, 1], elems = [100, 2, 3, 4, 5, 6, 7, 8, 9 :: real]\<rparr>"
  let ?L = "\<lparr>n_in = None, parameters = [],
      cache = [(''out_rows'', CList []), (''out_cols'', CList []), (''X_pad'', CList []),
               (''p'', CList []), (''pool_shape'', CList [])],
      gradients = [],
      kernel_shape = (2, 2), stride = 1, pad = PadPair 1 1, mode = ''max''\<rparr>"
  let ?L' = "?L\<lparr>cache := AList.update ''X'' (CArr ?X) (cache ?L)\<rparr>"
  have sz: "out_size 2 (int 1) 2 (stride ?L) = Inr (int 3)"
    by (simp add: out_size_def py_int_def)
  have neg: "\<forall>i<2. \<forall>j<2.
                1 \<le> 0 * stride ?L + i \<and> 0 * stride ?L + i < 1 + 2
                \<and> 1 \<le> 0 * stride ?L + j \<and> 0 * stride ?L + j < 1 + 2
                \<longrightarrow> item ?X [0, 0 * stride ?L + i - 1, 0 * stride ?L + j - 1, 0] < 0"
    by (auto simp: less_Suc_eq numeral_2_eq_2 item_def)
  have padded: "\<exists>i<2. \<exists>j<2.
                \<not> (1 \<le> 0 * stride ?L + i \<and> 0 * stride ?L + i < 1 + 2
                   \<and> 1 \<le> 0 * stride ?L + j \<and> 0 * stride ?L + j < 1 + 2)"
    by (intro exI[of _ 0] conjI) simp_all
  have agree: "\<forall>n'<1. \<forall>r<3. \<forall>c<3. \<forall>m'<1. (n', r, c, m') \<noteq> (0, 0, 0, 0)
                \<longrightarrow> item ?G' [n', r, c, m'] = item ?G [n', r, c, m']"
    by (auto simp: less_Suc_eq numeral_3_eq_3 item_def)
  have c: "AList.update ''X'' (CArr ?X) (cache ?L)
      = [(''out_rows'', CList []), (''out_cols'', CList []), (''X_pad'', CList []),
               (''p'', CList []), (''pool_shape'', CList []), (''X'', CArr ?X)]"
    by simp
  have ev: "tabulate [1, 3, 3, 1] (\<lambda>idx. pool_value NpMax
              (map (\<lambda>t. item (zero_pad ?X 1 1) [idx ! 0, idx ! 1 + t div 2, idx ! 2 + t mod 2, idx ! 3])
                 [0..<4]))
            = \<lparr>shape = [1, 3, 3, 1], elems = [0, 0, 0, 0, - 1, 0, 0, 0, 0]\<rparr>"
    by code_simp
  have am: "argmax_list [0, 0, 0, - 1 :: real] = 0"
    by code_simp
  have bw: "pool2d_backward ?L' ?G = Inr \<lparr>shape = [1, 2, 2, 1], elems = [5, 0, 0, 0]\<rparr>"
    unfolding c by code_simp
  obtain Y dX where r:
    "pool2d_forward ?L ?X = Inr (Y, ?L')"
    "item Y [0, 0, 0, 0] = 0"
    "pool2d_backward ?L' ?G = Inr dX"
    "pool2d_backward ?L' ?G' = Inr dX"
    using pool2d_max_padded_window[where L = ?L and kh = 2 and kw = 2 and ph = 1 and pw = 1
      and a = "CList []" and b = "CList []" and X = ?X and B = 1 and H = 2 and Wd = 2 and C = 1
      and R = 3 and Cc = 3 and dLdY = ?G and dLdY' = ?G' and n = 0 and row = 0 and col = 0
      and m = 0, OF _ _ _ _ _ _ _ _ sz sz _ _ _ _ _ _ neg padded agree]
    by auto
  have f: "select_pool_fn (mode ?L) = Some NpMax" by (simp add: select_pool_fn_def)
  have "pool2d_forward ?L ?X
      = Inr (\<lparr>shape = [1, 3, 3, 1], elems = [0, 0, 0, 0, - 1, 0, 0, 0, 0]\<rparr>, ?L')"
    using pool2d_forward_result[where L = ?L and kh = 2 and kw = 2 and f = NpMax and ph = 1
      and pw = 1 and X = ?X and B = 1 and H = 2 and Wd = 2 and C = 1 and R = 3 and Cc = 3,
      OF _ _ _ f _ _ sz sz] ev
    by simp
  moreover have "pool2d_backward ?L' ?G' = Inr \<lparr>shape = [1, 2, 2, 1], elems = [5, 0, 0, 0]\<rparr>"
    using r(3,4) bw by simp
  ultimately show ?thesis using am bw by (simp add: c)
qed

text \<open>
  Without a padded cell in the window the claim fails, also under nonzero padding.  A
  \<open>2 \<times> 2\<close> input with all cells negative, kernel \<open>2 \<times> 2\<close>, stride 1 and pad 1: the centre
  window holds the four real cells and no padded one, \<^verbatim>\<open>forward\<close> returns \<open>-1\<close> there, and
  an upstream gradient \<open>5\<close> at the centre reaches the input cell that holds \<open>-1\<close>.
\<close>

theorem pool2d_max_padded_window_counterexample:
  "map_sum id fst (pool2d_forward
     \<lparr>n_in = None, parameters = [],
      cache = [(''out_rows'', CList []), (''out_cols'', CList []), (''X_pad'', CList []),
               (''p'', CList []), (''pool_shape'', CList [])],
      gradients = [],
      kernel_shape = (2, 2), stride = 1, pad = PadPair 1 1, mode = ''max''\<rparr>
     \<lparr>shape = [1, 2, 2, 1], elems = [- 1, - 3, - 2, - 4]\<rparr>)
   = Inr \<lparr>shape = [1, 3, 3, 1], elems = [0, 0, 0, 0, - 1, 0, 0, 0, 0]\<rparr>
  \<and> pool2d_backward
     \<lparr>n_in = None, parameters = [],
      cache = [(''out_rows'', CList []), (''out_cols'', CList []), (''X_pad'', CList []),
               (''p'', CList []), (''pool_shape'', CList []),
               (''X'', CArr \<lparr>shape = [1, 2, 2, 1], elems = [- 1, - 3, - 2, - 4]\<rparr>)],
      gradients = [],
      kernel_shape = (2, 2), stride = 1, pad = PadPair 1 1, mode = ''max''\<rparr>
     \<lparr>shape = [1, 3, 3, 1], elems = [0, 0, 0, 0, 5, 0, 0, 0, 0]\<rparr>
   = Inr \<lparr>shape = [1, 2, 2, 1], elems = [5, 0, 0, 0]\<rparr>"
  by code_simp

subsection \<open>Conv2D: the backward pass\<close>

text \<open>
  Claim C2.  With \<open>dZ = activation.backward(Z, dLdY)\<close> of shape \<open>[B, out_h, out_w, n_out]\<close>,
  one pass of the loop body at an output position and channel adds, to every cell of the
  receptive-field window of \<^verbatim>\<open>dX_pad\<close>, the kernel entry of that channel times \<open>dZ\<close> at that
  position, keeps every other cell, and adds to the channel slice of \<^verbatim>\<open>dW\<close> the sum over
  the batch of the padded input window times \<open>dZ\<close> at that position.  After the three loops,
  \<^verbatim>\<open>backward\<close> returns \<^verbatim>\<open>dX_pad\<close> cropped by the pad offsets to the shape of the unpadded
  input, every cell holding the sum of the contributions of all windows that contain it;
  \<^verbatim>\<open>gradients["W"]\<close> holds, per kernel entry and channel, the sum over all output positions
  and the batch of padded input times \<open>dZ\<close>; \<^verbatim>\<open>gradients["b"]\<close> has shape \<open>[1, n_out]\<close> and
  holds the sum of \<open>dZ\<close> over the batch and both spatial axes.
\<close>

theorem conv2d_backward_computes:
  assumes W: "map_of (parameters L) ''W'' = Some W" "shape W = [kh, kw, C, och]"
    and b: "map_of (parameters L) ''b'' = Some bias"
    and cache: "map_of (cache L) ''X'' = Some (CArr X)" "map_of (cache L) ''Z'' = Some (CArr Z)"
    and X: "shape X = [B, H, Wd, C]"
    and pad: "pad L = PadPair (int ph) (int pw)"
    and sizes: "out_size H (int ph) kh (stride L) = Inr (int R)"
               "out_size Wd (int pw) kw (stride L) = Inr (int Cc)"
    and dZ: "dZ = act_backward (activation L) Z dLdY" "shape dZ = [B, R, Cc, och]"
  shows "(\<forall>row<R. \<forall>col<Cc. \<forall>ch<och. \<forall>A D.
            shape A = [B, H + 2 * ph, Wd + 2 * pw, C] \<and> shape D = [kh, kw, C, och] \<longrightarrow>
            conv2d_backward_step (zero_pad X ph pw) W dZ (stride L) kh kw row col ch (A, D)
            = Inr (tabulate [B, H + 2 * ph, Wd + 2 * pw, C]
                     (\<lambda>idx. item A idx
                        + (if row * stride L \<le> idx ! 1 \<and> idx ! 1 < row * stride L + kh
                              \<and> col * stride L \<le> idx ! 2 \<and> idx ! 2 < col * stride L + kw
                           then item W [idx ! 1 - row * stride L, idx ! 2 - col * stride L, idx ! 3, ch]
                                * item dZ [idx ! 0, row, col, ch]
                           else 0)),
                   tabulate [kh, kw, C, och]
                     (\<lambda>idx. item D idx
                        + (if idx ! 3 = ch
                           then \<Sum>n<B. item (zero_pad X ph pw)
                                          [n, row * stride L + idx ! 0, col * stride L + idx ! 1, idx ! 2]
                                        * item dZ [n, row, col, ch]
                           else 0))))
       \<and> conv2d_backward L dLdY
         = Inr (tabulate [B, H, Wd, C]
                  (\<lambda>idx. \<Sum>row<R. \<Sum>col<Cc. \<Sum>ch<och.
                     if row * stride L \<le> ph + idx ! 1 \<and> ph + idx ! 1 < row * stride L + kh
                        \<and> col * stride L \<le> pw + idx ! 2 \<and> pw + idx ! 2 < col * stride L + kw
                     then item W [ph + idx ! 1 - row * stride L, pw + idx ! 2 - col * stride L,
                                  idx ! 3, ch]
                          * item dZ [idx ! 0, row, col, ch]
                     else 0),
                L\<lparr>gradients :=
                    AList.update ''b''
                      (tabulate [1, och]
                         (\<lambda>idx. \<Sum>n<B. \<Sum>row<R. \<Sum>col<Cc. item dZ [n, row, col, idx ! 1]))
                      (AList.update ''W''
                         (tabulate [kh, kw, C, och]
                            (\<lambda>idx. \<Sum>row<R. \<Sum>col<Cc. \<Sum>n<B.
                               item (zero_pad X ph pw)
                                 [n, row * stride L + idx ! 0, col * stride L + idx ! 1, idx ! 2]
                               * item dZ [n, row, col, idx ! 3]))
                         (gradients L))\<rparr>)"
proof -
  have psh: "shape (zero_pad X ph pw) = [B, H + 2 * ph, Wd + 2 * pw, C]"
    using X by (simp add: zero_pad_shape4)
  have rows: "row * stride L + kh \<le> H + 2 * ph" if "row < R" for row
    using out_size_window_fits[OF sizes(1), of row] that by simp
  have cols: "col * stride L + kw \<le> Wd + 2 * pw" if "col < Cc" for col
    using out_size_window_fits[OF sizes(2), of col] that by simp
  have step: "conv2d_backward_step (zero_pad X ph pw) W dZ (stride L) kh kw row col ch (A, D)
            = Inr (tabulate [B, H + 2 * ph, Wd + 2 * pw, C]
                     (\<lambda>idx. item A idx
                        + (if row * stride L \<le> idx ! 1 \<and> idx ! 1 < row * stride L + kh
                              \<and> col * stride L \<le> idx ! 2 \<and> idx ! 2 < col * stride L + kw
                           then item W [idx ! 1 - row * stride L, idx ! 2 - col * stride L, idx ! 3, ch]
                                * item dZ [idx ! 0, row, col, ch]
                           else 0)),
                   tabulate [kh, kw, C, och]
                     (\<lambda>idx. item D idx
                        + (if idx ! 3 = ch
                           then \<Sum>n<B. item (zero_pad X ph pw)
                                          [n, row * stride L + idx ! 0, col * stride L + idx ! 1, idx ! 2]
                                        * item dZ [n, row, col, ch]
                           else 0)))"
    if "row < R" "col < Cc" "ch < och" "shape A = [B, H + 2 * ph, Wd + 2 * pw, C]"
       "shape D = [kh, kw, C, och]" for row col ch A D
    using that(4,5) W(2) psh dZ(2) that(1,2,3) rows[OF that(1)] cols[OF that(2)]
    by (rule conv2d_backward_step_eq)
  show ?thesis
    using step conv2d_backward_result[OF assms] by blast
qed

theorem conv2d_backward_computes_witness:
  "conv2d_backward
     \<lparr>n_in = Some 1,
      parameters = [(''W'', \<lparr>shape = [2, 2, 1, 1], elems = [1, 3, 2, 4]\<rparr>), (''b'', np_zeros [1, 1])],
      cache = [(''Z'', CArr \<lparr>shape = [1, 3, 3, 1], elems = [0, 0, 0, 0, 0, 0, 0, 0, 0]\<rparr>),
               (''X'', CArr \<lparr>shape = [1, 2, 2, 1], elems = [1, 2, 3, 4]\<rparr>)],
      gradients = [(''W'', np_zeros [2, 2, 1, 1]), (''b'', np_zeros [1, 1])],
      kernel_shape = (2, 2), stride = 1, pad = PadPair 1 1,
      n_out = 1, activation = \<lparr>act_call = (\<lambda>Z. Z), act_backward = (\<lambda>Z d. d)\<rparr>,
      init_weights = np_zeros\<rparr>
     \<lparr>shape = [1, 3, 3, 1], elems = [1, 2, 3, 4, 5, 6, 7, 8, 9]\<rparr>
   = Inr (\<lparr>shape = [1, 2, 2, 1], elems = [25, 35, 55, 65]\<rparr>,
     \<lparr>n_in = Some 1,
      parameters = [(''W'', \<lparr>shape = [2, 2, 1, 1], elems = [1, 3, 2, 4]\<rparr>), (''b'', np_zeros [1, 1])],
      cache = [(''Z'', CArr \<lparr>shape = [1, 3, 3, 1], elems = [0, 0, 0, 0, 0, 0, 0, 0, 0]\<rparr>),
               (''X'', CArr \<lparr>shape = [1, 2, 2, 1], elems = [1, 2, 3, 4]\<rparr>)],
      gradients = [(''W'', \<lparr>shape = [2, 2, 1, 1], elems = [77, 67, 47, 37]\<rparr>),
                   (''b'', \<lparr>shape = [1, 1], elems = [45]\<rparr>)],
      kernel_shape = (2, 2), stride = 1, pad = PadPair 1 1,
      n_out = 1, activation = \<lparr>act_call = (\<lambda>Z. Z), act_backward = (\<lambda>Z d. d)\<rparr>,
      init_weights = np_zeros\<rparr>)"
proof -
  let ?X = "\<lparr>shape = [1, 2, 2, 1], elems = [1, 2, 3, 4 :: real]\<rparr>"
  let ?W = "\<lparr>shape = [2, 2, 1, 1], elems = [1, 3, 2, 4 :: real]\<rparr>"
  let ?Z = "\<lparr>shape = [1, 3, 3, 1], elems = [0, 0, 0, 0, 0, 0, 0, 0, 0 :: real]\<rparr>"
  let ?G = "\<lparr>shape = [1, 3, 3, 1], elems = [1, 2, 3, 4, 5, 6, 7, 8, 9 :: real]\<rparr>"
  let ?L = "\<lparr>n_in = Some 1,
      parameters = [(''W'', ?W), (''b'', np_zeros [1, 1])],
      cache = [(''Z'', CArr ?Z), (''X'', CArr ?X)],
      gradients = [(''W'', np_zeros [2, 2, 1, 1]), (''b'', np_zeros [1, 1])],
      kernel_shape = (2, 2), stride = 1, pad = PadPair 1 1,
      n_out = 1, activation = \<lparr>act_call = (\<lambda>Z. Z), act_backward = (\<lambda>Z d. d)\<rparr>,
      init_weights = np_zeros\<rparr>"
  have sz: "out_size 2 (int 1) 2 (stride ?L) = Inr (int 3)"
    by (simp add: out_size_def py_int_def)
  have dX: "tabulate [1, 2, 2, 1]
                  (\<lambda>idx. \<Sum>row<3. \<Sum>col<3. \<Sum>ch<1.
                     if row * 1 \<le> 1 + idx ! 1 \<and> 1 + idx ! 1 < row * 1 + 2
                        \<and> col * 1 \<le> 1 + idx ! 2 \<and> 1 + idx ! 2 < col * 1 + 2
                     then item ?W [1 + idx ! 1 - row * 1, 1 + idx ! 2 - col * 1, idx ! 3, ch]
                          * item ?G [idx ! 0, row, col, ch]
                     else 0)
      = \<lparr>shape = [1, 2, 2, 1], elems = [25, 35, 55, 65]\<rparr>"
    by code_simp
  have dW: "tabulate [2, 2, 1, 1]
                            (\<lambda>idx. \<Sum>row<3. \<Sum>col<3. \<Sum>n<1.
                               item (zero_pad ?X 1 1)
                                 [n, row * 1 + idx ! 0, col * 1 + idx ! 1, idx ! 2]
                               * item ?G [n, row, col, idx ! 3])
      = \<lparr>shape = [2, 2, 1, 1], elems = [77, 67, 47, 37]\<rparr>"
    by code_simp
  have dB: "tabulate [1, 1] (\<lambda>idx. \<Sum>n<1. \<Sum>row<3. \<Sum>col<3. item ?G [n, row, col, idx ! 1])
      = \<lparr>shape = [1, 1], elems = [45]\<rparr>"
    by code_simp
  have st: "stride ?L = 1" by simp
  note inst = conv2d_backward_computes[where L = ?L and W = ?W and kh = 2 and kw = 2 and C = 1
      and och = 1 and bias = "np_zeros [1, 1]" and X = ?X and Z = ?Z and B = 1 and H = 2
      and Wd = 2 and ph = 1 and pw = 1 and R = 3 and Cc = 3 and dZ = ?G and dLdY = ?G,
      OF _ _ _ _ _ _ _ sz sz, unfolded st dX dW dB]
  have "conv2d_backward ?L ?G
      = Inr (\<lparr>shape = [1, 2, 2, 1], elems = [25, 35, 55, 65]\<rparr>,
             ?L\<lparr>gradients := AList.update ''b'' \<lparr>shape = [1, 1], elems = [45]\<rparr>
                  (AList.update ''W'' \<lparr>shape = [2, 2, 1, 1], elems = [77, 67, 47, 37]\<rparr>
                     (gradients ?L))\<rparr>)"
    using inst by simp
  then show ?thesis by simp
qed

end
